theory Spec2Isabelle
  imports Main "HOL-Library.Word" "HOL-Library.Multiset"
begin

unbundle bit_operations_syntax

section \<open>AnimationSet: a composite animation over an ordered list of children\<close>

text \<open>
  The development follows \<^verbatim>\<open>SOUI/include/animator/AnimationSet.h\<close>. The class
  \<^verbatim>\<open>AnimationSet\<close> derives from \<^verbatim>\<open>Animation\<close> and keeps its children by value in
  \<^verbatim>\<open>SArray<Animation> mAnimations\<close>, so a child is a plain \<^verbatim>\<open>Animation\<close> object owned
  by the set and no two entries alias.

  The C++ type \<^verbatim>\<open>long\<close> is read as a mathematical integer: signed overflow is undefined
  behaviour in C++, so the model describes every execution in which the sums
  \<^verbatim>\<open>startOffset + duration\<close> stay in range. The flag word \<^verbatim>\<open>int mFlags\<close> is a 32-bit
  word with bitwise operations.
\<close>

subsection \<open>Data model\<close>

type_synonym long = int

text \<open>A listener is identified by a handle; \<^verbatim>\<open>NULL\<close> is \<open>None\<close>.\<close>

type_synonym listener = nat

text \<open>
  Modelled from the spec: the base class \<^verbatim>\<open>Animation\<close> (\<^verbatim>\<open>animator/Animation.h\<close>) is not
  among the sources. The spec's data model gives it a duration, a start offset, a start
  time, fill-before/after flags, a repeat mode and started/ended flags; the code of
  \<^verbatim>\<open>AnimationSet\<close> reads and writes the protected members \<^verbatim>\<open>mStartTime\<close>,
  \<^verbatim>\<open>mStartOffset\<close>, \<^verbatim>\<open>mDuration\<close>, \<^verbatim>\<open>mStarted\<close>, \<^verbatim>\<open>mEnded\<close> and \<^verbatim>\<open>mListener\<close>
  and calls \<^verbatim>\<open>getScaleFactor()\<close>. The scale factor is a float in the source; its type
  is left open as \<open>'f\<close>.
\<close>

record 'f Animation =
  mStartTime :: long
  mStartOffset :: long
  mDuration :: long
  mFillBefore :: bool
  mFillAfter :: bool
  mRepeatMode :: int
  mStarted :: bool
  mEnded :: bool
  mListener :: "listener option"
  mScaleFactor :: 'f

text \<open>
  The members \<^verbatim>\<open>AnimationSet\<close> adds to its base object. The inherited sub-object is
  the field \<open>base\<close>; the type \<open>'t\<close> is \<^verbatim>\<open>Transformation\<close>.
\<close>

record ('f, 't) AnimationSet =
  base :: "'f Animation"
  mFlags :: "32 word"
  mDirty :: bool
  mHasAlpha :: bool
  mAnimations :: "'f Animation list"
  mTempTransformation :: 't
  mLastEnd :: long

text \<open>The listener callbacks a call can make, in the order they are made.\<close>

datatype callback = onAnimationStart listener | onAnimationEnd listener

definition PROPERTY_FILL_AFTER_MASK :: "32 word" where
  "PROPERTY_FILL_AFTER_MASK = 0x1"

definition PROPERTY_FILL_BEFORE_MASK :: "32 word" where
  "PROPERTY_FILL_BEFORE_MASK = 0x2"

definition PROPERTY_REPEAT_MODE_MASK :: "32 word" where
  "PROPERTY_REPEAT_MODE_MASK = 0x4"

definition PROPERTY_START_OFFSET_MASK :: "32 word" where
  "PROPERTY_START_OFFSET_MASK = 0x8"

definition PROPERTY_SHARE_INTERPOLATOR_MASK :: "32 word" where
  "PROPERTY_SHARE_INTERPOLATOR_MASK = 0x10"

definition PROPERTY_DURATION_MASK :: "32 word" where
  "PROPERTY_DURATION_MASK = 0x20"

subsection \<open>The base class operations used by the set\<close>

text \<open>
  Modelled from the spec: the accessors of \<^verbatim>\<open>Animation\<close> are declared in the absent
  \<^verbatim>\<open>Animation.h\<close>. Each getter returns the property the spec's data model names, and
  each setter stores it.
\<close>

definition Animation_getStartOffset :: "'f Animation \<Rightarrow> long" where
  "Animation_getStartOffset a = mStartOffset a"

definition Animation_getDuration :: "'f Animation \<Rightarrow> long" where
  "Animation_getDuration a = mDuration a"

definition Animation_getStartTime :: "'f Animation \<Rightarrow> long" where
  "Animation_getStartTime a = mStartTime a"

definition Animation_hasStarted :: "'f Animation \<Rightarrow> bool" where
  "Animation_hasStarted a = mStarted a"

definition Animation_hasEnded :: "'f Animation \<Rightarrow> bool" where
  "Animation_hasEnded a = mEnded a"

definition Animation_getScaleFactor :: "'f Animation \<Rightarrow> 'f" where
  "Animation_getScaleFactor a = mScaleFactor a"

definition Animation_setDuration :: "long \<Rightarrow> 'f Animation \<Rightarrow> 'f Animation" where
  "Animation_setDuration durationMillis a = a\<lparr>mDuration := durationMillis\<rparr>"

definition Animation_setStartOffset :: "long \<Rightarrow> 'f Animation \<Rightarrow> 'f Animation" where
  "Animation_setStartOffset startOffset a = a\<lparr>mStartOffset := startOffset\<rparr>"

definition Animation_setFillAfter :: "bool \<Rightarrow> 'f Animation \<Rightarrow> 'f Animation" where
  "Animation_setFillAfter fillAfter a = a\<lparr>mFillAfter := fillAfter\<rparr>"

definition Animation_setFillBefore :: "bool \<Rightarrow> 'f Animation \<Rightarrow> 'f Animation" where
  "Animation_setFillBefore fillBefore a = a\<lparr>mFillBefore := fillBefore\<rparr>"

definition Animation_setRepeatMode :: "int \<Rightarrow> 'f Animation \<Rightarrow> 'f Animation" where
  "Animation_setRepeatMode repeatMode a = a\<lparr>mRepeatMode := repeatMode\<rparr>"

text \<open>
  Modelled from the spec: \<^verbatim>\<open>smax\<close> and \<^verbatim>\<open>smin\<close> come from a header outside this file;
  the spec reads them as maximum and minimum.
\<close>

definition smax :: "long \<Rightarrow> long \<Rightarrow> long" where
  "smax a b = (if a > b then a else b)"

definition smin :: "long \<Rightarrow> long \<Rightarrow> long" where
  "smin a b = (if a < b then a else b)"

subsection \<open>Construction and property setters\<close>

definition setFlag :: "32 word \<Rightarrow> bool \<Rightarrow> ('f, 't) AnimationSet \<Rightarrow> ('f, 't) AnimationSet" where
  "setFlag flagMask val s =
     (if val then s\<lparr>mFlags := mFlags s OR flagMask\<rparr>
      else s\<lparr>mFlags := mFlags s AND NOT flagMask\<rparr>)"

definition init :: "('f, 't) AnimationSet \<Rightarrow> ('f, 't) AnimationSet" where
  "init s = s\<lparr>base := (base s)\<lparr>mStartTime := 0\<rparr>\<rparr>"

text \<open>
  The constructor. \<open>a0\<close> is the base object as the constructor of \<^verbatim>\<open>Animation\<close> leaves
  it and \<open>t0\<close> the default \<^verbatim>\<open>Transformation\<close>; \<^verbatim>\<open>mDirty\<close>, \<^verbatim>\<open>mHasAlpha\<close> and
  \<^verbatim>\<open>mLastEnd\<close> have no initialiser in the source, so their first values \<open>dirty0\<close>,
  \<open>alpha0\<close> and \<open>lastEnd0\<close> are arbitrary.
\<close>

definition AnimationSet_new ::
  "bool \<Rightarrow> 'f Animation \<Rightarrow> 't \<Rightarrow> bool \<Rightarrow> bool \<Rightarrow> long \<Rightarrow> ('f, 't) AnimationSet" where
  "AnimationSet_new shareInterpolator a0 t0 dirty0 alpha0 lastEnd0 =
     init (setFlag PROPERTY_SHARE_INTERPOLATOR_MASK shareInterpolator
       \<lparr>base = a0, mFlags = 0, mDirty = dirty0, mHasAlpha = alpha0, mAnimations = [],
        mTempTransformation = t0, mLastEnd = lastEnd0\<rparr>)"

definition setFillAfter :: "bool \<Rightarrow> ('f, 't) AnimationSet \<Rightarrow> ('f, 't) AnimationSet" where
  "setFillAfter fillAfter s =
     s\<lparr>mFlags := mFlags s OR PROPERTY_FILL_AFTER_MASK,
       base := Animation_setFillAfter fillAfter (base s)\<rparr>"

definition setFillBefore :: "bool \<Rightarrow> ('f, 't) AnimationSet \<Rightarrow> ('f, 't) AnimationSet" where
  "setFillBefore fillBefore s =
     s\<lparr>mFlags := mFlags s OR PROPERTY_FILL_BEFORE_MASK,
       base := Animation_setFillBefore fillBefore (base s)\<rparr>"

definition setRepeatMode :: "int \<Rightarrow> ('f, 't) AnimationSet \<Rightarrow> ('f, 't) AnimationSet" where
  "setRepeatMode repeatMode s =
     s\<lparr>mFlags := mFlags s OR PROPERTY_REPEAT_MODE_MASK,
       base := Animation_setRepeatMode repeatMode (base s)\<rparr>"

definition setStartOffset :: "long \<Rightarrow> ('f, 't) AnimationSet \<Rightarrow> ('f, 't) AnimationSet" where
  "setStartOffset startOffset s =
     s\<lparr>mFlags := mFlags s OR PROPERTY_START_OFFSET_MASK,
       base := Animation_setStartOffset startOffset (base s)\<rparr>"

text \<open>The test \<^verbatim>\<open>(mFlags & PROPERTY_DURATION_MASK) == PROPERTY_DURATION_MASK\<close>.\<close>

definition durationOverridden :: "('f, 't) AnimationSet \<Rightarrow> bool" where
  "durationOverridden s = (mFlags s AND PROPERTY_DURATION_MASK = PROPERTY_DURATION_MASK)"

definition setDuration :: "long \<Rightarrow> ('f, 't) AnimationSet \<Rightarrow> ('f, 't) AnimationSet" where
  "setDuration durationMillis s =
     (let s1 = s\<lparr>mFlags := mFlags s OR PROPERTY_DURATION_MASK\<rparr>;
          s2 = s1\<lparr>base := Animation_setDuration durationMillis (base s1)\<rparr>
      in s2\<lparr>mLastEnd := mStartOffset (base s2) + mDuration (base s2)\<rparr>)"

subsection \<open>Adding a child\<close>

definition addAnimation :: "'f Animation \<Rightarrow> ('f, 't) AnimationSet \<Rightarrow> ('f, 't) AnimationSet" where
  "addAnimation a s =
     (let s1 = s\<lparr>mAnimations := mAnimations s @ [a]\<rparr>;
          s2 =
            (if mFlags s1 AND PROPERTY_DURATION_MASK = PROPERTY_DURATION_MASK then
               s1\<lparr>mLastEnd := mStartOffset (base s1) + mDuration (base s1)\<rparr>
             else if length (mAnimations s1) = 1 then
               (let s' = s1\<lparr>base := (base s1)\<lparr>mDuration :=
                           Animation_getStartOffset a + Animation_getDuration a\<rparr>\<rparr>
                in s'\<lparr>mLastEnd := mStartOffset (base s') + mDuration (base s')\<rparr>)
             else
               (let s' = s1\<lparr>mLastEnd := smax (mLastEnd s1)
                           (Animation_getStartOffset a + Animation_getDuration a)\<rparr>
                in s'\<lparr>base := (base s')\<lparr>mDuration := mLastEnd s' - mStartOffset (base s')\<rparr>\<rparr>))
      in s2\<lparr>mDirty := True\<rparr>)"

text \<open>
  The calls that build a set: a set is built by running a list of them from the
  constructor's state.
\<close>

datatype 'f call =
    AddAnimation "'f Animation"
  | SetDuration long
  | SetStartOffset long
  | SetFillAfter bool
  | SetFillBefore bool
  | SetRepeatMode int

fun perform :: "'f call \<Rightarrow> ('f, 't) AnimationSet \<Rightarrow> ('f, 't) AnimationSet" where
  "perform (AddAnimation a) s = addAnimation a s"
| "perform (SetDuration d) s = setDuration d s"
| "perform (SetStartOffset d) s = setStartOffset d s"
| "perform (SetFillAfter b) s = setFillAfter b s"
| "perform (SetFillBefore b) s = setFillBefore b s"
| "perform (SetRepeatMode m) s = setRepeatMode m s"

fun performAll :: "'f call list \<Rightarrow> ('f, 't) AnimationSet \<Rightarrow> ('f, 't) AnimationSet" where
  "performAll [] s = s"
| "performAll (c # cs) s = performAll cs (perform c s)"

fun isSetDuration :: "'f call \<Rightarrow> bool" where
  "isSetDuration (SetDuration d) = True"
| "isSetDuration c = False"

fun added :: "'f call list \<Rightarrow> 'f Animation list" where
  "added [] = []"
| "added (AddAnimation a # cs) = a # added cs"
| "added (c # cs) = added cs"

text \<open>
  The calls that leave a set without duration override and with start offset \<open>0\<close> in
  that condition: every call but \<^verbatim>\<open>setDuration\<close>, with \<^verbatim>\<open>setStartOffset\<close> given \<open>0\<close>.
\<close>

fun offsetZeroCall :: "'f call \<Rightarrow> bool" where
  "offsetZeroCall (SetDuration d) = False"
| "offsetZeroCall (SetStartOffset d) = (d = 0)"
| "offsetZeroCall c = True"

subsection \<open>Start time\<close>

text \<open>
  \<^verbatim>\<open>Animation::setStartTime\<close> is declared in the absent \<^verbatim>\<open>Animation.h\<close>; it is the
  parameter \<open>baseSetStartTime\<close>, applied to the set's own base object and then to
  \<^verbatim>\<open>mAnimations[i]\<close> for \<open>i\<close> from \<open>0\<close> up to the last index.
\<close>

function setStartTime_loop ::
  "(long \<Rightarrow> 'f Animation \<Rightarrow> 'f Animation) \<Rightarrow> long \<Rightarrow> nat \<Rightarrow> nat \<Rightarrow> 'f Animation list \<Rightarrow> 'f Animation list" where
  "setStartTime_loop baseSetStartTime startTimeMillis cnt i anims =
     (if i < cnt then
        setStartTime_loop baseSetStartTime startTimeMillis cnt (i + 1)
          (anims[i := baseSetStartTime startTimeMillis (anims ! i)])
      else anims)"
  by pat_completeness auto
termination
  by (relation "measure (\<lambda>(f, t, cnt, i, anims). cnt - i)") auto

declare setStartTime_loop.simps [simp del]

definition setStartTime ::
  "(long \<Rightarrow> 'f Animation \<Rightarrow> 'f Animation) \<Rightarrow> long \<Rightarrow> ('f, 't) AnimationSet \<Rightarrow> ('f, 't) AnimationSet" where
  "setStartTime baseSetStartTime startTimeMillis s =
     (let s1 = s\<lparr>base := baseSetStartTime startTimeMillis (base s)\<rparr>;
          cnt = length (mAnimations s1)
      in s1\<lparr>mAnimations :=
              setStartTime_loop baseSetStartTime startTimeMillis cnt 0 (mAnimations s1)\<rparr>)"

function getStartTime_loop :: "'f Animation list \<Rightarrow> nat \<Rightarrow> nat \<Rightarrow> long \<Rightarrow> long" where
  "getStartTime_loop anims cnt i startTime =
     (if i < cnt then
        getStartTime_loop anims cnt (i + 1)
          (smin startTime (Animation_getStartTime (anims ! i)))
      else startTime)"
  by pat_completeness auto
termination
  by (relation "measure (\<lambda>(anims, cnt, i, startTime). cnt - i)") auto

declare getStartTime_loop.simps [simp del]

definition getStartTime :: "('f, 't) AnimationSet \<Rightarrow> long" where
  "getStartTime s =
     (let startTime = 100000; cnt = length (mAnimations s)
      in getStartTime_loop (mAnimations s) cnt 0 startTime)"

subsection \<open>Duration\<close>

function getDuration_loop :: "'f Animation list \<Rightarrow> nat \<Rightarrow> nat \<Rightarrow> long \<Rightarrow> long" where
  "getDuration_loop anims cnt i duration =
     (if i < cnt then
        getDuration_loop anims cnt (i + 1)
          (smax duration (Animation_getDuration (anims ! i)))
      else duration)"
  by pat_completeness auto
termination
  by (relation "measure (\<lambda>(anims, cnt, i, duration). cnt - i)") auto

declare getDuration_loop.simps [simp del]

definition getDuration :: "('f, 't) AnimationSet \<Rightarrow> long" where
  "getDuration s =
     (let cnt = length (mAnimations s);
          duration = 0;
          durationSet = (mFlags s AND PROPERTY_DURATION_MASK = PROPERTY_DURATION_MASK)
      in if durationSet then mDuration (base s)
         else getDuration_loop (mAnimations s) cnt 0 duration)"

subsection \<open>Reset\<close>

text \<open>
  \<^verbatim>\<open>Animation::reset\<close> is declared in the absent \<^verbatim>\<open>Animation.h\<close>; it is the parameter
  \<open>baseReset\<close> and acts on the base object. The body of \<^verbatim>\<open>restoreChildrenStartOffset\<close>
  consists of comments only.
\<close>

definition restoreChildrenStartOffset :: "('f, 't) AnimationSet \<Rightarrow> ('f, 't) AnimationSet" where
  "restoreChildrenStartOffset s = s"

definition reset ::
  "('f Animation \<Rightarrow> 'f Animation) \<Rightarrow> ('f, 't) AnimationSet \<Rightarrow> ('f, 't) AnimationSet" where
  "reset baseReset s = restoreChildrenStartOffset (s\<lparr>base := baseReset (base s)\<rparr>)"

subsection \<open>Composing the children's transformations\<close>

text \<open>
  \<^verbatim>\<open>Transformation\<close> and the children's own \<^verbatim>\<open>getTransformation\<close> are declared
  outside this file and are parameters of the model:
  \<^item> \<open>clr\<close> is the value \<^verbatim>\<open>Transformation::clear()\<close> leaves (the identity);
  \<^item> \<open>compose t temp\<close> is the value of \<^verbatim>\<open>t\<close> after \<^verbatim>\<open>t.compose(temp)\<close>;
  \<^item> \<open>childGT currentTime temp scale a\<close> is the call
    \<^verbatim>\<open>a.getTransformation(currentTime, temp, scale)\<close>: it returns the child's answer,
    the transformation it leaves in \<^verbatim>\<open>temp\<close> and the child after the call.

  The loop variable of the source runs from the last index down to \<open>0\<close>; the first
  argument of the loop function is the number of children still to visit, so the child
  visited is the one at that number minus one. The locals \<^verbatim>\<open>more\<close>, \<^verbatim>\<open>started\<close>,
  \<^verbatim>\<open>ended\<close> and \<^verbatim>\<open>t\<close> and the array are threaded through.
\<close>

type_synonym ('f, 't) childGT = "long \<Rightarrow> 't \<Rightarrow> 'f \<Rightarrow> 'f Animation \<Rightarrow> bool \<times> 't \<times> 'f Animation"

fun getTransformation_loop ::
  "'t \<Rightarrow> ('t \<Rightarrow> 't \<Rightarrow> 't) \<Rightarrow> ('f, 't) childGT \<Rightarrow> long \<Rightarrow> 'f \<Rightarrow> nat \<Rightarrow>
   bool \<times> bool \<times> bool \<times> 't \<times> 'f Animation list \<Rightarrow> bool \<times> bool \<times> bool \<times> 't \<times> 'f Animation list" where
  "getTransformation_loop clr compose childGT currentTime scale 0 st = st"
| "getTransformation_loop clr compose childGT currentTime scale (Suc i) (more', started, ended, t, anims) =
     (let (m, temp, a) = childGT currentTime clr scale (anims ! i)
      in getTransformation_loop clr compose childGT currentTime scale i
           (m \<or> more', started \<or> Animation_hasStarted a, Animation_hasEnded a \<and> ended,
            compose t temp, anims[i := a]))"

text \<open>The values of the locals when the loop is left.\<close>

definition aggregate ::
  "'t \<Rightarrow> ('t \<Rightarrow> 't \<Rightarrow> 't) \<Rightarrow> ('f, 't) childGT \<Rightarrow> long \<Rightarrow> ('f, 't) AnimationSet \<Rightarrow>
   bool \<times> bool \<times> bool \<times> 't \<times> 'f Animation list" where
  "aggregate clr compose childGT currentTime s =
     (let cnt = length (mAnimations s)
      in getTransformation_loop clr compose childGT currentTime
           (Animation_getScaleFactor (base s)) cnt (False, False, True, clr, mAnimations s))"

definition aggStarted ::
  "'t \<Rightarrow> ('t \<Rightarrow> 't \<Rightarrow> 't) \<Rightarrow> ('f, 't) childGT \<Rightarrow> long \<Rightarrow> ('f, 't) AnimationSet \<Rightarrow> bool" where
  "aggStarted clr compose childGT currentTime s =
     (case aggregate clr compose childGT currentTime s of
        (more', started, ended, t, anims) \<Rightarrow> started)"

definition aggEnded ::
  "'t \<Rightarrow> ('t \<Rightarrow> 't \<Rightarrow> 't) \<Rightarrow> ('f, 't) childGT \<Rightarrow> long \<Rightarrow> ('f, 't) AnimationSet \<Rightarrow> bool" where
  "aggEnded clr compose childGT currentTime s =
     (case aggregate clr compose childGT currentTime s of
        (more', started, ended, t, anims) \<Rightarrow> ended)"

text \<open>
  A callback through \<^verbatim>\<open>mListener\<close> is made only when the pointer is not \<^verbatim>\<open>NULL\<close>.
  What the listener does when called is outside this file; the model records the call.
\<close>

definition notify :: "(listener \<Rightarrow> callback) \<Rightarrow> listener option \<Rightarrow> callback list" where
  "notify cb l = (case l of None \<Rightarrow> [] | Some h \<Rightarrow> [cb h])"

text \<open>
  The result is the returned \<^verbatim>\<open>more\<close>, the transformation left in the reference
  argument \<^verbatim>\<open>t\<close>, the set after the call and the callbacks made.
\<close>

definition getTransformation ::
  "'t \<Rightarrow> ('t \<Rightarrow> 't \<Rightarrow> 't) \<Rightarrow> ('f, 't) childGT \<Rightarrow> long \<Rightarrow> ('f, 't) AnimationSet \<Rightarrow>
   bool \<times> 't \<times> ('f, 't) AnimationSet \<times> callback list" where
  "getTransformation clr compose childGT currentTime s =
     (case aggregate clr compose childGT currentTime s of
        (more', started, ended, t, anims) \<Rightarrow>
          (let s1 = s\<lparr>mAnimations := anims\<rparr>;
               fireStart = (started \<and> \<not> mStarted (base s1));
               ev1 = (if fireStart then notify onAnimationStart (mListener (base s1)) else []);
               s2 = (if fireStart then s1\<lparr>base := (base s1)\<lparr>mStarted := True\<rparr>\<rparr> else s1);
               fireEnd = (ended \<noteq> mEnded (base s2));
               ev2 = (if fireEnd then notify onAnimationEnd (mListener (base s2)) else []);
               s3 = (if fireEnd then s2\<lparr>base := (base s2)\<lparr>mEnded := ended\<rparr>\<rparr> else s2)
           in (more', t, s3, ev1 @ ev2)))"

text \<open>
  A sequence of \<^verbatim>\<open>getTransformation\<close> calls at the timestamps \<open>cts\<close>, with nothing in
  between: \<open>preStates\<close> lists the set as each call finds it, \<open>callbacksOf\<close> the
  callbacks each call makes.
\<close>

definition afterGT ::
  "'t \<Rightarrow> ('t \<Rightarrow> 't \<Rightarrow> 't) \<Rightarrow> ('f, 't) childGT \<Rightarrow> long \<Rightarrow> ('f, 't) AnimationSet \<Rightarrow> ('f, 't) AnimationSet" where
  "afterGT clr compose childGT currentTime s =
     (case getTransformation clr compose childGT currentTime s of (more', t, s', ev) \<Rightarrow> s')"

definition callbacksGT ::
  "'t \<Rightarrow> ('t \<Rightarrow> 't \<Rightarrow> 't) \<Rightarrow> ('f, 't) childGT \<Rightarrow> long \<Rightarrow> ('f, 't) AnimationSet \<Rightarrow> callback list" where
  "callbacksGT clr compose childGT currentTime s =
     (case getTransformation clr compose childGT currentTime s of (more', t, s', ev) \<Rightarrow> ev)"

fun preStates ::
  "'t \<Rightarrow> ('t \<Rightarrow> 't \<Rightarrow> 't) \<Rightarrow> ('f, 't) childGT \<Rightarrow> ('f, 't) AnimationSet \<Rightarrow> long list \<Rightarrow> ('f, 't) AnimationSet list" where
  "preStates clr compose childGT s [] = []"
| "preStates clr compose childGT s (ct # cts) =
     s # preStates clr compose childGT (afterGT clr compose childGT ct s) cts"

fun callbacksOf ::
  "'t \<Rightarrow> ('t \<Rightarrow> 't \<Rightarrow> 't) \<Rightarrow> ('f, 't) childGT \<Rightarrow> ('f, 't) AnimationSet \<Rightarrow> long list \<Rightarrow> callback list list" where
  "callbacksOf clr compose childGT s [] = []"
| "callbacksOf clr compose childGT s (ct # cts) =
     callbacksGT clr compose childGT ct s
       # callbacksOf clr compose childGT (afterGT clr compose childGT ct s) cts"

subsection \<open>Notions used in the statements\<close>

text \<open>The end time of a child as \<^verbatim>\<open>addAnimation\<close> computes it.\<close>

definition childEnd :: "'f Animation \<Rightarrow> long" where
  "childEnd a = Animation_getStartOffset a + Animation_getDuration a"

text \<open>
  What one child's \<^verbatim>\<open>getTransformation\<close> gives when it is handed a cleared
  transformation: its answer, its transformation, and the child afterwards.
\<close>

definition childMore :: "('f, 't) childGT \<Rightarrow> 't \<Rightarrow> long \<Rightarrow> 'f \<Rightarrow> 'f Animation \<Rightarrow> bool" where
  "childMore childGT clr currentTime scale a = fst (childGT currentTime clr scale a)"

definition childTransformation ::
  "('f, 't) childGT \<Rightarrow> 't \<Rightarrow> long \<Rightarrow> 'f \<Rightarrow> 'f Animation \<Rightarrow> 't" where
  "childTransformation childGT clr currentTime scale a = fst (snd (childGT currentTime clr scale a))"

definition childAfter ::
  "('f, 't) childGT \<Rightarrow> 't \<Rightarrow> long \<Rightarrow> 'f \<Rightarrow> 'f Animation \<Rightarrow> 'f Animation" where
  "childAfter childGT clr currentTime scale a = snd (snd (childGT currentTime clr scale a))"

text \<open>
  The relation between the cached timing fields that \<^verbatim>\<open>addAnimation\<close> keeps while
  the duration is not overridden: the duration is the cached last end minus the start
  offset, and for a set with start offset \<open>0\<close> the cached last end is the greatest end
  time of a child.
\<close>

definition timingInvariant :: "('f, 't) AnimationSet \<Rightarrow> bool" where
  "timingInvariant s =
     (\<not> durationOverridden s \<and> mAnimations s \<noteq> [] \<longrightarrow>
        mDuration (base s) = mLastEnd s - mStartOffset (base s) \<and>
        (mStartOffset (base s) = 0 \<longrightarrow> mLastEnd s = Max (childEnd ` set (mAnimations s))))"

subsection \<open>Sample objects\<close>

text \<open>
  Concrete values on which the model is run. The sample transformation is a list of
  integers with concatenation as composition and the empty list as identity, so the order
  of composition stays visible. The sample child is active from its start time plus start
  offset for its duration and contributes its start offset as its transformation.
\<close>

definition sampleAnimation :: "long \<Rightarrow> long \<Rightarrow> long \<Rightarrow> bool \<Rightarrow> bool \<Rightarrow> unit Animation" where
  "sampleAnimation startTime startOffset duration started ended =
     \<lparr>mStartTime = startTime, mStartOffset = startOffset, mDuration = duration,
      mFillBefore = True, mFillAfter = False, mRepeatMode = 1,
      mStarted = started, mEnded = ended, mListener = None, mScaleFactor = ()\<rparr>"

definition sampleSet :: "(unit, long list) AnimationSet" where
  "sampleSet = AnimationSet_new False (sampleAnimation (-1) 0 0 False False) [] False False 0"

definition sampleChildGT :: "(unit, long list) childGT" where
  "sampleChildGT currentTime temp scale a =
     (let running = (mStartTime a + mStartOffset a \<le> currentTime);
          expired = (mStartTime a + mStartOffset a + mDuration a \<le> currentTime)
      in (\<not> expired,
          (if running then temp @ [mStartOffset a] else temp),
          a\<lparr>mStarted := running, mEnded := expired\<rparr>))"

definition sampleSetStartTime :: "long \<Rightarrow> unit Animation \<Rightarrow> unit Animation" where
  "sampleSetStartTime startTimeMillis a =
     a\<lparr>mStartTime := startTimeMillis, mStarted := False, mEnded := False\<rparr>"

definition sampleReset :: "unit Animation \<Rightarrow> unit Animation" where
  "sampleReset a = a\<lparr>mStarted := False, mEnded := False\<rparr>"

text \<open>
  The sample set with two children, ending at 30 and at 110, and listener 7 registered.
\<close>

definition sampleListenedSet :: "(unit, long list) AnimationSet" where
  "sampleListenedSet =
     addAnimation (sampleAnimation 0 10 100 False False)
       (addAnimation (sampleAnimation 0 0 30 False False)
         (sampleSet\<lparr>base := (base sampleSet)\<lparr>mListener := Some 7\<rparr>\<rparr>))"

section \<open>Properties\<close>

subsection \<open>The loops in closed form\<close>

lemma smin_min: "smin a b = min a b"
  by (simp add: smin_def min_def)

lemma smax_max: "smax a b = max a b"
  by (simp add: smax_def max_def)

lemma Min_insert_min: "finite S \<Longrightarrow> Min (insert (min a b) S) = Min (insert a (insert b S))"
  by (cases "S = {}") (simp_all add: min.assoc)

lemma Max_insert_max: "finite S \<Longrightarrow> Max (insert (max a b) S) = Max (insert a (insert b S))"
  by (cases "S = {}") (simp_all add: max.assoc)

lemma getStartTime_loop_Min:
  "cnt = length anims \<Longrightarrow> i \<le> cnt \<Longrightarrow>
   getStartTime_loop anims cnt i st = Min (insert st (Animation_getStartTime ` set (drop i anims)))"
proof (induction anims cnt i st rule: getStartTime_loop.induct)
  case (1 anims cnt i st)
  show ?case
  proof (cases "i < cnt")
    case True
    then have d: "drop i anims = anims ! i # drop (Suc i) anims"
      using 1(2) by (simp add: Cons_nth_drop_Suc)
    have "getStartTime_loop anims cnt i st =
          getStartTime_loop anims cnt (i + 1) (smin st (Animation_getStartTime (anims ! i)))"
      using True by (subst getStartTime_loop.simps) simp
    also have "\<dots> = Min (insert (smin st (Animation_getStartTime (anims ! i)))
                        (Animation_getStartTime ` set (drop (i + 1) anims)))"
      using 1 True by simp
    also have "\<dots> = Min (insert st (Animation_getStartTime ` set (drop i anims)))"
      by (simp add: smin_min Min_insert_min d)
    finally show ?thesis .
  next
    case False
    then show ?thesis using 1(2,3) by (subst getStartTime_loop.simps) simp
  qed
qed

lemma getDuration_loop_Max:
  "cnt = length anims \<Longrightarrow> i \<le> cnt \<Longrightarrow>
   getDuration_loop anims cnt i d = Max (insert d (Animation_getDuration ` set (drop i anims)))"
proof (induction anims cnt i d rule: getDuration_loop.induct)
  case (1 anims cnt i d)
  show ?case
  proof (cases "i < cnt")
    case True
    then have dr: "drop i anims = anims ! i # drop (Suc i) anims"
      using 1(2) by (simp add: Cons_nth_drop_Suc)
    have "getDuration_loop anims cnt i d =
          getDuration_loop anims cnt (i + 1) (smax d (Animation_getDuration (anims ! i)))"
      using True by (subst getDuration_loop.simps) simp
    also have "\<dots> = Max (insert (smax d (Animation_getDuration (anims ! i)))
                        (Animation_getDuration ` set (drop (i + 1) anims)))"
      using 1 True by simp
    also have "\<dots> = Max (insert d (Animation_getDuration ` set (drop i anims)))"
      by (simp add: smax_max Max_insert_max dr)
    finally show ?thesis .
  next
    case False
    then show ?thesis using 1(2,3) by (subst getDuration_loop.simps) simp
  qed
qed

lemma setStartTime_loop_map:
  "cnt = length anims \<Longrightarrow> i \<le> cnt \<Longrightarrow>
   setStartTime_loop f t cnt i anims = take i anims @ map (f t) (drop i anims)"
proof (induction f t cnt i anims rule: setStartTime_loop.induct)
  case (1 f t cnt i anims)
  show ?case
  proof (cases "i < cnt")
    case True
    let ?anims' = "anims[i := f t (anims ! i)]"
    have "setStartTime_loop f t cnt i anims = setStartTime_loop f t cnt (i + 1) ?anims'"
      using True by (subst setStartTime_loop.simps) simp
    also have "\<dots> = take (i + 1) ?anims' @ map (f t) (drop (i + 1) ?anims')"
      using 1 True by simp
    also have "\<dots> = take i anims @ map (f t) (drop i anims)"
      using True 1(2)
      by (simp add: take_Suc_conv_app_nth Cons_nth_drop_Suc [symmetric] del: drop_Suc)
    finally show ?thesis .
  next
    case False
    then show ?thesis using 1(2,3) by (subst setStartTime_loop.simps) simp
  qed
qed

lemma getTransformation_loop_char:
  "n \<le> length anims \<Longrightarrow>
   getTransformation_loop clr compose childGT ct sc n (m, st, en, t, anims) =
     ((\<exists>a\<in>set (take n anims). childMore childGT clr ct sc a) \<or> m,
      st \<or> (\<exists>a\<in>set (take n anims). Animation_hasStarted (childAfter childGT clr ct sc a)),
      (\<forall>a\<in>set (take n anims). Animation_hasEnded (childAfter childGT clr ct sc a)) \<and> en,
      foldl compose t (rev (map (childTransformation childGT clr ct sc) (take n anims))),
      map (childAfter childGT clr ct sc) (take n anims) @ drop n anims)"
proof (induction n arbitrary: m st en t anims)
  case 0
  then show ?case by simp
next
  case (Suc n)
  obtain m' temp a' where r: "childGT ct clr sc (anims ! n) = (m', temp, a')"
    by (cases "childGT ct clr sc (anims ! n)") auto
  let ?anims' = "anims[n := a']"
  have len: "n \<le> length ?anims'" using Suc.prems by simp
  have tk: "take n ?anims' = take n anims" by simp
  have tkS: "take (Suc n) anims = take n anims @ [anims ! n]"
    using Suc.prems by (simp add: take_Suc_conv_app_nth)
  have dr: "drop n ?anims' = a' # drop (Suc n) anims"
    using Suc.prems by (simp add: drop_update_cancel Cons_nth_drop_Suc [symmetric] del: drop_Suc)
  have "getTransformation_loop clr compose childGT ct sc (Suc n) (m, st, en, t, anims) =
        getTransformation_loop clr compose childGT ct sc n
          (m' \<or> m, st \<or> Animation_hasStarted a', Animation_hasEnded a' \<and> en, compose t temp, ?anims')"
    by (simp add: r)
  also have "\<dots> =
     ((\<exists>a\<in>set (take n ?anims'). childMore childGT clr ct sc a) \<or> (m' \<or> m),
      (st \<or> Animation_hasStarted a') \<or> (\<exists>a\<in>set (take n ?anims'). Animation_hasStarted (childAfter childGT clr ct sc a)),
      (\<forall>a\<in>set (take n ?anims'). Animation_hasEnded (childAfter childGT clr ct sc a)) \<and> (Animation_hasEnded a' \<and> en),
      foldl compose (compose t temp) (rev (map (childTransformation childGT clr ct sc) (take n ?anims'))),
      map (childAfter childGT clr ct sc) (take n ?anims') @ drop n ?anims')"
    by (rule Suc.IH [OF len])
  also have "\<dots> =
     ((\<exists>a\<in>set (take (Suc n) anims). childMore childGT clr ct sc a) \<or> m,
      st \<or> (\<exists>a\<in>set (take (Suc n) anims). Animation_hasStarted (childAfter childGT clr ct sc a)),
      (\<forall>a\<in>set (take (Suc n) anims). Animation_hasEnded (childAfter childGT clr ct sc a)) \<and> en,
      foldl compose t (rev (map (childTransformation childGT clr ct sc) (take (Suc n) anims))),
      map (childAfter childGT clr ct sc) (take (Suc n) anims) @ drop (Suc n) anims)"
    unfolding tk tkS dr
    by (auto simp: childMore_def childTransformation_def childAfter_def r)
  finally show ?case .
qed

lemma aggregate_char:
  "aggregate clr compose childGT ct s =
     ((\<exists>a\<in>set (mAnimations s). childMore childGT clr ct (mScaleFactor (base s)) a),
      (\<exists>a\<in>set (mAnimations s). mStarted (childAfter childGT clr ct (mScaleFactor (base s)) a)),
      (\<forall>a\<in>set (mAnimations s). mEnded (childAfter childGT clr ct (mScaleFactor (base s)) a)),
      foldl compose clr (rev (map (childTransformation childGT clr ct (mScaleFactor (base s))) (mAnimations s))),
      map (childAfter childGT clr ct (mScaleFactor (base s))) (mAnimations s))"
  by (simp add: aggregate_def getTransformation_loop_char Animation_getScaleFactor_def
      Animation_hasStarted_def Animation_hasEnded_def)

lemma getStartTime_Min:
  "getStartTime s = Min (insert 100000 (Animation_getStartTime ` set (mAnimations s)))"
  by (simp add: getStartTime_def getStartTime_loop_Min)

lemma getDuration_closed:
  "getDuration s =
     (if durationOverridden s then mDuration (base s)
      else Max (insert 0 (Animation_getDuration ` set (mAnimations s))))"
  by (simp add: getDuration_def durationOverridden_def getDuration_loop_Max)


subsection \<open>What the building calls change\<close>

lemma or_mask_and_duration:
  "m AND (0x20::32 word) = 0 \<Longrightarrow> (x OR m) AND (0x20::32 word) = x AND 0x20"
  by (simp add: bit.conj_disj_distrib2)

lemma mFlags_addAnimation [simp]: "mFlags (addAnimation a s) = mFlags s"
  by (simp add: addAnimation_def Let_def)

lemma durationOverridden_addAnimation [simp]: "durationOverridden (addAnimation a s) = durationOverridden s"
  by (simp add: durationOverridden_def)

lemma mAnimations_addAnimation [simp]: "mAnimations (addAnimation a s) = mAnimations s @ [a]"
  by (simp add: addAnimation_def Let_def)

lemma durationOverridden_perform:
  "\<not> isSetDuration c \<Longrightarrow> durationOverridden (perform c s) = durationOverridden s"
  by (cases c)
    (simp_all add: durationOverridden_def setStartOffset_def setFillAfter_def setFillBefore_def
      setRepeatMode_def PROPERTY_DURATION_MASK_def PROPERTY_START_OFFSET_MASK_def
      PROPERTY_FILL_AFTER_MASK_def PROPERTY_FILL_BEFORE_MASK_def PROPERTY_REPEAT_MODE_MASK_def
      or_mask_and_duration)

lemma durationOverridden_performAll:
  "\<forall>c\<in>set cs. \<not> isSetDuration c \<Longrightarrow> durationOverridden (performAll cs s) = durationOverridden s"
  by (induction cs arbitrary: s) (simp_all add: durationOverridden_perform)

lemma mAnimations_perform: "mAnimations (perform c s) = mAnimations s @ added [c]"
  by (cases c)
    (simp_all add: setDuration_def setStartOffset_def setFillAfter_def setFillBefore_def
      setRepeatMode_def Let_def)

lemma added_Cons: "added (c # cs) = added [c] @ added cs"
  by (cases c) simp_all

lemma mAnimations_performAll: "mAnimations (performAll cs s) = mAnimations s @ added cs"
proof (induction cs arbitrary: s)
  case Nil
  show ?case by simp
next
  case (Cons c cs)
  have "mAnimations (performAll (c # cs) s) = (mAnimations s @ added [c]) @ added cs"
    by (simp add: Cons.IH mAnimations_perform)
  then show ?case by (simp add: added_Cons [of c cs])
qed

lemma durationOverridden_new: "\<not> durationOverridden (AnimationSet_new sh a0 t0 d0 h0 l0)"
  by (simp add: durationOverridden_def AnimationSet_new_def init_def setFlag_def
      PROPERTY_DURATION_MASK_def PROPERTY_SHARE_INTERPOLATOR_MASK_def)

lemma mAnimations_new: "mAnimations (AnimationSet_new sh a0 t0 d0 h0 l0) = []"
  by (simp add: AnimationSet_new_def init_def setFlag_def)

lemma addAnimation_when_override:
  "durationOverridden s \<Longrightarrow>
   addAnimation a s =
     s\<lparr>mAnimations := mAnimations s @ [a],
       mLastEnd := mStartOffset (base s) + mDuration (base s), mDirty := True\<rparr>"
  by (simp add: addAnimation_def durationOverridden_def Let_def)

lemma addAnimation_when_first:
  "\<not> durationOverridden s \<Longrightarrow> mAnimations s = [] \<Longrightarrow>
   addAnimation a s =
     s\<lparr>mAnimations := [a], base := (base s)\<lparr>mDuration := childEnd a\<rparr>,
       mLastEnd := mStartOffset (base s) + childEnd a, mDirty := True\<rparr>"
  by (simp add: addAnimation_def durationOverridden_def Let_def childEnd_def)

lemma addAnimation_when_later:
  "\<not> durationOverridden s \<Longrightarrow> mAnimations s \<noteq> [] \<Longrightarrow>
   addAnimation a s =
     s\<lparr>mAnimations := mAnimations s @ [a],
       mLastEnd := max (mLastEnd s) (childEnd a),
       base := (base s)\<lparr>mDuration := max (mLastEnd s) (childEnd a) - mStartOffset (base s)\<rparr>,
       mDirty := True\<rparr>"
  by (simp add: addAnimation_def durationOverridden_def Let_def childEnd_def smax_max)

lemma mStartOffset_addAnimation [simp]:
  "mStartOffset (base (addAnimation a s)) = mStartOffset (base s)"
  by (simp add: addAnimation_def Let_def)

lemma durationOverridden_setDuration: "durationOverridden (setDuration d s)"
  by (simp add: durationOverridden_def setDuration_def Let_def PROPERTY_DURATION_MASK_def
      bit.conj_disj_distrib2)

lemma mLastEnd_setDuration:
  "mLastEnd (setDuration d s) =
     mStartOffset (base (setDuration d s)) + mDuration (base (setDuration d s))"
  by (simp add: setDuration_def Let_def)



subsection \<open>The duration reported by \<^verbatim>\<open>getDuration\<close>\<close>

text \<open>
  Claim C1 says that on a set built without \<^verbatim>\<open>setDuration\<close> the value of
  \<^verbatim>\<open>getDuration()\<close> is the greatest child end time (start offset plus duration) minus
  the set's own start offset. The code does not compute that: a fresh set that receives
  one child with start offset 5 and duration 10 reports 10, while the greatest child end
  time minus the set's start offset is 15.
\<close>

theorem getDuration_built_counterexample:
  "\<not> durationOverridden (addAnimation (sampleAnimation 0 5 10 False False) sampleSet) \<and>
   getDuration (addAnimation (sampleAnimation 0 5 10 False False) sampleSet) = 10 \<and>
   Max (childEnd ` set (mAnimations (addAnimation (sampleAnimation 0 5 10 False False) sampleSet)))
     - mStartOffset (base (addAnimation (sampleAnimation 0 5 10 False False) sampleSet)) = 15"
  by (simp add: getDuration_closed sampleSet_def durationOverridden_def childEnd_def
      Animation_getDuration_def Animation_getStartOffset_def sampleAnimation_def
      addAnimation_def AnimationSet_new_def init_def setFlag_def Let_def
      PROPERTY_DURATION_MASK_def PROPERTY_SHARE_INTERPOLATOR_MASK_def)

text \<open>
  Claim C1, amended: for every set built from the constructor by any sequence of
  \<^verbatim>\<open>addAnimation\<close> and property-setter calls that never calls \<^verbatim>\<open>setDuration\<close>,
  \<^verbatim>\<open>getDuration()\<close> returns the greatest of \<open>0\<close> and the own durations of the children
  added; neither the children's start offsets nor the set's start offset enter.
\<close>

theorem getDuration_built:
  "\<forall>c\<in>set cs. \<not> isSetDuration c \<Longrightarrow>
   getDuration (performAll cs (AnimationSet_new sh a0 t0 d0 h0 l0)) =
     Max (insert 0 (Animation_getDuration ` set (added cs)))"
  by (simp add: getDuration_closed durationOverridden_performAll durationOverridden_new
      mAnimations_performAll mAnimations_new)

text \<open>
  The amended claim C1 at a concrete building sequence: start offset 10 on the set and
  children with (start offset, duration) = (5, 10) and (20, 7) give the duration 10.
\<close>

theorem getDuration_built_witness:
  "getDuration (performAll
      [SetStartOffset 10, AddAnimation (sampleAnimation 0 5 10 False False),
       SetFillAfter True, AddAnimation (sampleAnimation 0 20 7 False False)] sampleSet) = 10"
  using getDuration_built [of "[SetStartOffset 10, AddAnimation (sampleAnimation 0 5 10 False False),
       SetFillAfter True, AddAnimation (sampleAnimation 0 20 7 False False)]"
       False "sampleAnimation (-1) 0 0 False False" "[]::long list" False False 0]
  by (simp add: sampleSet_def Animation_getDuration_def sampleAnimation_def)



subsection \<open>The start time reported by \<^verbatim>\<open>getStartTime\<close>\<close>

text \<open>
  Claim C6 says that \<^verbatim>\<open>getStartTime()\<close> returns the sentinel 100000 on a set without
  children and the true minimum of the children's start times otherwise. The loop folds
  \<^verbatim>\<open>smin\<close> from 100000, so a set whose only child has the start time 200000 reports
  100000, which is not the start time of any child.
\<close>

theorem getStartTime_capped_by_sentinel:
  "getStartTime (addAnimation (sampleAnimation 200000 0 300 False False) sampleSet) = 100000 \<and>
   map Animation_getStartTime
     (mAnimations (addAnimation (sampleAnimation 200000 0 300 False False) sampleSet)) = [200000]"
  by (simp add: getStartTime_Min addAnimation_def sampleSet_def AnimationSet_new_def init_def
      setFlag_def sampleAnimation_def Animation_getStartTime_def Let_def)

subsection \<open>The timing fields kept by \<^verbatim>\<open>addAnimation\<close>\<close>

lemma timingInvariant_addAnimation:
  assumes "timingInvariant s"
  shows "timingInvariant (addAnimation a s)"
proof (cases "durationOverridden s")
  case True
  then show ?thesis by (simp add: timingInvariant_def)
next
  case False
  show ?thesis
  proof (cases "mAnimations s = []")
    case True
    then show ?thesis using False
      by (simp add: addAnimation_when_first timingInvariant_def durationOverridden_def)
  next
    case ne: False
    from assms False ne
    have i1: "mDuration (base s) = mLastEnd s - mStartOffset (base s)"
      and i2: "mStartOffset (base s) = 0 \<longrightarrow> mLastEnd s = Max (childEnd ` set (mAnimations s))"
      by (simp_all add: timingInvariant_def)
    have mx: "Max (insert (childEnd a) (childEnd ` set (mAnimations s)))
                = max (childEnd a) (Max (childEnd ` set (mAnimations s)))"
      using ne by simp
    show ?thesis using False ne i2 mx
      by (simp add: addAnimation_when_later timingInvariant_def durationOverridden_def max.commute)
  qed
qed

lemma mStartOffset_new:
  "mStartOffset (base (AnimationSet_new sh a0 t0 d0 h0 l0)) = mStartOffset a0"
  by (simp add: AnimationSet_new_def init_def setFlag_def)

lemma timingInvariant_new: "timingInvariant (AnimationSet_new sh a0 t0 d0 h0 l0)"
  by (simp add: timingInvariant_def mAnimations_new)

lemma offsetZeroCall_not_setDuration: "offsetZeroCall c \<Longrightarrow> \<not> isSetDuration c"
  by (cases c) simp_all

lemma offsetZeroCall_fields:
  "offsetZeroCall c \<Longrightarrow> mStartOffset (base s) = 0 \<Longrightarrow> \<forall>a. c \<noteq> AddAnimation a \<Longrightarrow>
   mStartOffset (base (perform c s)) = 0 \<and> mDuration (base (perform c s)) = mDuration (base s) \<and>
   mLastEnd (perform c s) = mLastEnd s \<and> mAnimations (perform c s) = mAnimations s"
  by (cases c)
    (simp_all add: setStartOffset_def setFillAfter_def setFillBefore_def setRepeatMode_def
      Animation_setStartOffset_def Animation_setFillAfter_def Animation_setFillBefore_def
      Animation_setRepeatMode_def)

lemma offsetZero_step:
  assumes c: "offsetZeroCall c"
    and z: "mStartOffset (base s) = 0" and n: "\<not> durationOverridden s"
    and i: "timingInvariant s"
  shows "mStartOffset (base (perform c s)) = 0 \<and> \<not> durationOverridden (perform c s) \<and>
         timingInvariant (perform c s)"
proof (cases "\<exists>a. c = AddAnimation a")
  case True
  then obtain a where "c = AddAnimation a" ..
  then show ?thesis using z n i by (simp add: timingInvariant_addAnimation)
next
  case False
  then have na: "\<forall>a. c \<noteq> AddAnimation a" by simp
  have f: "mStartOffset (base (perform c s)) = 0 \<and> mDuration (base (perform c s)) = mDuration (base s) \<and>
   mLastEnd (perform c s) = mLastEnd s \<and> mAnimations (perform c s) = mAnimations s"
    using c z na by (rule offsetZeroCall_fields)
  have d: "durationOverridden (perform c s) = durationOverridden s"
    using c by (simp add: durationOverridden_perform offsetZeroCall_not_setDuration)
  show ?thesis using f d z n i by (simp add: timingInvariant_def)
qed

lemma offsetZero_build:
  "\<forall>c\<in>set cs. offsetZeroCall c \<Longrightarrow> mStartOffset (base s) = 0 \<Longrightarrow>
   \<not> durationOverridden s \<Longrightarrow> timingInvariant s \<Longrightarrow>
   mStartOffset (base (performAll cs s)) = 0 \<and> \<not> durationOverridden (performAll cs s) \<and>
   timingInvariant (performAll cs s)"
proof (induction cs arbitrary: s)
  case Nil
  then show ?case by simp
next
  case (Cons c cs)
  have st: "mStartOffset (base (perform c s)) = 0 \<and> \<not> durationOverridden (perform c s) \<and>
         timingInvariant (perform c s)"
    using Cons.prems by (intro offsetZero_step) simp_all
  have "\<forall>c\<in>set cs. offsetZeroCall c" using Cons.prems(1) by simp
  from Cons.IH [OF this, of "perform c s"] st show ?case by simp
qed

lemma addAnimation_max_step:
  assumes n: "\<not> durationOverridden s" and z: "mStartOffset (base s) = 0"
    and m: "mAnimations s \<noteq> [] \<longrightarrow> mLastEnd s = Max (childEnd ` set (mAnimations s))"
  shows "mLastEnd (addAnimation a s) = Max (childEnd ` set (mAnimations s @ [a])) \<and>
         mDuration (base (addAnimation a s)) = Max (childEnd ` set (mAnimations s @ [a]))"
proof (cases "mAnimations s = []")
  case True
  then show ?thesis using n z by (simp add: addAnimation_when_first)
next
  case False
  have mx: "Max (insert (childEnd a) (childEnd ` set (mAnimations s)))
              = max (childEnd a) (Max (childEnd ` set (mAnimations s)))"
    using False by simp
  show ?thesis using False n z m mx
    by (simp add: addAnimation_when_later max.commute)
qed

text \<open>
  Claim C3, amended: every \<^verbatim>\<open>addAnimation\<close> call on a set whose duration is not
  overridden leaves the duration field equal to the cached \<^verbatim>\<open>mLastEnd\<close> minus the set's
  start offset, and the first child seeds the duration with its own start offset plus
  duration and \<^verbatim>\<open>mLastEnd\<close> with the set's start offset plus that. If moreover, before
  the call, the set's start offset is \<open>0\<close> and, when the set has children, \<^verbatim>\<open>mLastEnd\<close>
  is the maximum over them of (child start offset + child duration), then after the call
  \<^verbatim>\<open>mLastEnd\<close> and the duration are that maximum over the children including the new
  one. Hence every set built from a constructor state with start offset \<open>0\<close> by
  \<^verbatim>\<open>addAnimation\<close> and property-setter calls other than \<^verbatim>\<open>setDuration\<close>, with
  \<^verbatim>\<open>setStartOffset\<close> given only \<open>0\<close>, and holding at least one child, has that maximum
  as its \<^verbatim>\<open>mLastEnd\<close> and as its duration.
\<close>

theorem addAnimation_timing:
  fixes s :: "('f, 't) AnimationSet" and a0 :: "'f Animation" and t0 :: 't
  shows
  "(\<not> durationOverridden s \<longrightarrow>
      mDuration (base (addAnimation a s)) =
        mLastEnd (addAnimation a s) - mStartOffset (base (addAnimation a s))) \<and>
   (\<not> durationOverridden s \<longrightarrow> mAnimations s = [] \<longrightarrow>
      mDuration (base (addAnimation a s)) = childEnd a \<and>
      mLastEnd (addAnimation a s) = mStartOffset (base s) + childEnd a) \<and>
   (\<not> durationOverridden s \<longrightarrow> mStartOffset (base s) = 0 \<longrightarrow>
      (mAnimations s \<noteq> [] \<longrightarrow> mLastEnd s = Max (childEnd ` set (mAnimations s))) \<longrightarrow>
      mLastEnd (addAnimation a s) = Max (childEnd ` set (mAnimations (addAnimation a s))) \<and>
      mDuration (base (addAnimation a s)) = Max (childEnd ` set (mAnimations (addAnimation a s)))) \<and>
   (mStartOffset a0 = 0 \<longrightarrow> (\<forall>c\<in>set cs. offsetZeroCall c) \<longrightarrow> added cs \<noteq> [] \<longrightarrow>
      mLastEnd (performAll cs (AnimationSet_new sh a0 t0 d0 h0 l0)) =
        Max (childEnd ` set (added cs)) \<and>
      mDuration (base (performAll cs (AnimationSet_new sh a0 t0 d0 h0 l0))) =
        Max (childEnd ` set (added cs)) \<and>
      mStartOffset (base (performAll cs (AnimationSet_new sh a0 t0 d0 h0 l0))) = 0)"
proof (intro conjI impI)
  assume n: "\<not> durationOverridden s"
  show "mDuration (base (addAnimation a s)) =
        mLastEnd (addAnimation a s) - mStartOffset (base (addAnimation a s))"
    using n by (cases "mAnimations s = []") (simp_all add: addAnimation_when_first addAnimation_when_later)
next
  assume "\<not> durationOverridden s" "mAnimations s = []"
  then show "mDuration (base (addAnimation a s)) = childEnd a"
    and "mLastEnd (addAnimation a s) = mStartOffset (base s) + childEnd a"
    by (simp_all add: addAnimation_when_first)
next
  assume h: "\<not> durationOverridden s" "mStartOffset (base s) = 0"
    "mAnimations s \<noteq> [] \<longrightarrow> mLastEnd s = Max (childEnd ` set (mAnimations s))"
  from addAnimation_max_step [OF h, of a]
  show "mLastEnd (addAnimation a s) = Max (childEnd ` set (mAnimations (addAnimation a s)))"
    and "mDuration (base (addAnimation a s)) = Max (childEnd ` set (mAnimations (addAnimation a s)))"
    by simp_all
next
  assume z: "mStartOffset a0 = 0" and cs: "\<forall>c\<in>set cs. offsetZeroCall c" and ne: "added cs \<noteq> []"
  let ?s0 = "AnimationSet_new sh a0 t0 d0 h0 l0 :: ('f, 't) AnimationSet"
  let ?s = "performAll cs ?s0"
  have b: "mStartOffset (base ?s) = 0 \<and> \<not> durationOverridden ?s \<and> timingInvariant ?s"
    using cs z
    by (intro offsetZero_build) (simp_all add: mStartOffset_new durationOverridden_new timingInvariant_new)
  have an: "mAnimations ?s = added cs"
    by (simp add: mAnimations_performAll mAnimations_new)
  from b an ne have l: "mLastEnd ?s = Max (childEnd ` set (added cs))"
    and d: "mDuration (base ?s) = mLastEnd ?s - mStartOffset (base ?s)"
    by (simp_all add: timingInvariant_def)
  show "mLastEnd ?s = Max (childEnd ` set (added cs))" by (rule l)
  show "mDuration (base ?s) = Max (childEnd ` set (added cs))" using d l b by simp
  show "mStartOffset (base ?s) = 0" using b by simp
qed

text \<open>
  Claim C3 says that \<^verbatim>\<open>addAnimation\<close> keeps, for a set without duration override, the
  duration field equal to the maximum over the children of (child start offset + child
  duration) minus the set's start offset. On a set with start offset 10 the first child,
  of end time 100, seeds the duration with 100, while that maximum minus the start offset
  is 90.
\<close>

theorem addAnimation_timing_counterexample:
  "\<not> durationOverridden (addAnimation (sampleAnimation 0 0 100 False False) (setStartOffset 10 sampleSet)) \<and>
   mDuration (base (addAnimation (sampleAnimation 0 0 100 False False) (setStartOffset 10 sampleSet))) = 100 \<and>
   Max (childEnd ` set (mAnimations
          (addAnimation (sampleAnimation 0 0 100 False False) (setStartOffset 10 sampleSet))))
     - mStartOffset (base (addAnimation (sampleAnimation 0 0 100 False False) (setStartOffset 10 sampleSet))) = 90"
proof -
  let ?s0 = "setStartOffset 10 sampleSet"
  have n: "\<not> durationOverridden ?s0"
    using durationOverridden_perform [of "SetStartOffset 10" sampleSet]
    by (simp add: sampleSet_def durationOverridden_new)
  have e: "mAnimations ?s0 = []"
    by (simp add: setStartOffset_def sampleSet_def mAnimations_new)
  have o: "mStartOffset (base ?s0) = 10"
    by (simp add: setStartOffset_def Animation_setStartOffset_def)
  have c: "childEnd (sampleAnimation 0 0 100 False False) = 100"
    by (simp add: childEnd_def sampleAnimation_def Animation_getStartOffset_def Animation_getDuration_def)
  have d: "\<not> durationOverridden (addAnimation (sampleAnimation 0 0 100 False False) ?s0)"
    using n by simp
  have r: "addAnimation (sampleAnimation 0 0 100 False False) ?s0 =
      ?s0\<lparr>mAnimations := [sampleAnimation 0 0 100 False False],
           base := (base ?s0)\<lparr>mDuration := 100\<rparr>,
           mLastEnd := 110, mDirty := True\<rparr>"
    using n e o c by (simp add: addAnimation_when_first)
  have v: "mDuration (base (addAnimation (sampleAnimation 0 0 100 False False) ?s0)) = 100"
    and m: "Max (childEnd ` set (mAnimations (addAnimation (sampleAnimation 0 0 100 False False) ?s0)))
              - mStartOffset (base (addAnimation (sampleAnimation 0 0 100 False False) ?s0)) = 90"
    using o c by (simp_all add: r)
  show ?thesis using d v m by simp
qed

text \<open>
  The amended claim C3 at concrete sets: the first child on a set with start offset 10;
  a second child, ending at 120, on a set with start offset 0 whose first child ends at
  100; and a set built with start offset 0 from children ending at 120 and 100.
\<close>

theorem addAnimation_timing_witness:
  "mDuration (base (addAnimation (sampleAnimation 0 0 100 False False) (setStartOffset 10 sampleSet))) = 100 \<and>
   mLastEnd (addAnimation (sampleAnimation 0 0 100 False False) (setStartOffset 10 sampleSet)) = 110 \<and>
   mLastEnd (addAnimation (sampleAnimation 0 20 100 False False)
     (addAnimation (sampleAnimation 0 0 100 False False) sampleSet)) = 120 \<and>
   mDuration (base (addAnimation (sampleAnimation 0 20 100 False False)
     (addAnimation (sampleAnimation 0 0 100 False False) sampleSet))) = 120 \<and>
   mLastEnd (performAll
     [SetStartOffset 0, AddAnimation (sampleAnimation 0 20 100 False False), SetFillAfter True,
      AddAnimation (sampleAnimation 0 0 100 False False)] sampleSet) = 120 \<and>
   mDuration (base (performAll
     [SetStartOffset 0, AddAnimation (sampleAnimation 0 20 100 False False), SetFillAfter True,
      AddAnimation (sampleAnimation 0 0 100 False False)] sampleSet)) = 120"
proof -
  let ?c1 = "sampleAnimation 0 0 100 False False"
  let ?c2 = "sampleAnimation 0 20 100 False False"
  let ?a0 = "sampleAnimation (-1) 0 0 False False"
  let ?sA = "setStartOffset 10 sampleSet"
  let ?sB = "addAnimation ?c1 sampleSet"
  let ?cs = "[SetStartOffset 0, AddAnimation ?c2, SetFillAfter True, AddAnimation ?c1]"
  have nA: "\<not> durationOverridden ?sA"
    using durationOverridden_perform [of "SetStartOffset 10" sampleSet]
    by (simp add: sampleSet_def durationOverridden_new)
  have eA: "mAnimations ?sA = []"
    by (simp add: setStartOffset_def sampleSet_def mAnimations_new)
  have oA: "mStartOffset (base ?sA) = 10"
    by (simp add: setStartOffset_def Animation_setStartOffset_def)
  have c1: "childEnd ?c1 = 100" and c2: "childEnd ?c2 = 120"
    by (simp_all add: childEnd_def sampleAnimation_def Animation_getStartOffset_def
        Animation_getDuration_def)
  have n0: "\<not> durationOverridden sampleSet" and e0: "mAnimations sampleSet = []"
    and o0: "mStartOffset (base sampleSet) = 0"
    by (simp_all add: sampleSet_def durationOverridden_new mAnimations_new mStartOffset_new
        sampleAnimation_def)
  have nB: "\<not> durationOverridden ?sB" using n0 by simp
  have oB: "mStartOffset (base ?sB) = 0" using o0 by simp
  have lB: "mAnimations ?sB \<noteq> [] \<longrightarrow> mLastEnd ?sB = Max (childEnd ` set (mAnimations ?sB))"
    using n0 e0 o0 c1 by (simp add: addAnimation_when_first)
  have z: "mStartOffset ?a0 = 0" by (simp add: sampleAnimation_def)
  have oz: "\<forall>c\<in>set ?cs. offsetZeroCall c" by simp
  have ne: "added ?cs \<noteq> []" by simp
  note tA = addAnimation_timing [of ?sA ?c1 ?a0 ?cs False "[]" False False 0]
  note tB = addAnimation_timing [of ?sB ?c2 ?a0 ?cs False "[]" False False 0]
  have dA: "mDuration (base (addAnimation ?c1 ?sA)) = 100"
    and lA: "mLastEnd (addAnimation ?c1 ?sA) = 110"
    using tA [THEN conjunct2, THEN conjunct1] nA eA oA c1 by simp_all
  have mB: "mLastEnd (addAnimation ?c2 ?sB) = 120"
    and dB: "mDuration (base (addAnimation ?c2 ?sB)) = 120"
    using tB [THEN conjunct2, THEN conjunct2, THEN conjunct1] nB oB lB e0 c1 c2 by simp_all
  have lD: "mLastEnd (performAll ?cs sampleSet) = 120"
    and dD: "mDuration (base (performAll ?cs sampleSet)) = 120"
    using tA [THEN conjunct2, THEN conjunct2, THEN conjunct2, rule_format, OF z bspec [OF oz] ne] c1 c2
    unfolding sampleSet_def [symmetric]
    by simp_all
  show ?thesis using dA lA mB dB lD dD by (intro conjI)
qed

text \<open>
  A later child on a set with a non-zero start offset: the branch for later children
  compares the cached \<^verbatim>\<open>mLastEnd\<close>, which the first child seeded with the set's start
  offset included, with the child's end time taken without it. With start offset 10 and
  children ending at 100 and 105 the duration stays 100 and \<^verbatim>\<open>mLastEnd\<close> stays 110.
\<close>

lemma later_child_with_start_offset:
  "mDuration (base (performAll
      [SetStartOffset 10, AddAnimation (sampleAnimation 0 0 100 False False),
       AddAnimation (sampleAnimation 0 0 105 False False)] sampleSet)) = 100 \<and>
   mLastEnd (performAll
      [SetStartOffset 10, AddAnimation (sampleAnimation 0 0 100 False False),
       AddAnimation (sampleAnimation 0 0 105 False False)] sampleSet) = 110"
proof -
  let ?s0 = "setStartOffset 10 sampleSet"
  let ?s1 = "addAnimation (sampleAnimation 0 0 100 False False) ?s0"
  have n0: "\<not> durationOverridden ?s0"
    using durationOverridden_perform [of "SetStartOffset 10" sampleSet]
    by (simp add: sampleSet_def durationOverridden_new)
  have e0: "mAnimations ?s0 = []"
    by (simp add: setStartOffset_def sampleSet_def mAnimations_new)
  have o0: "mStartOffset (base ?s0) = 10"
    by (simp add: setStartOffset_def Animation_setStartOffset_def)
  have c: "childEnd (sampleAnimation 0 0 100 False False) = 100"
    "childEnd (sampleAnimation 0 0 105 False False) = 105"
    by (simp_all add: childEnd_def Animation_getStartOffset_def Animation_getDuration_def
        sampleAnimation_def)
  have l1: "mLastEnd ?s1 = 110" and o1: "mStartOffset (base ?s1) = 10"
    using n0 e0 o0 c by (simp_all add: addAnimation_when_first)
  have n1: "\<not> durationOverridden ?s1" using n0 by simp
  have e1: "mAnimations ?s1 \<noteq> []" by simp
  show ?thesis
    using l1 o1 c by (simp add: addAnimation_when_later [OF n1 e1])
qed

text \<open>
  The condition on \<^verbatim>\<open>mLastEnd\<close> before the call is needed: after
  \<^verbatim>\<open>setStartOffset(10)\<close>, a child ending at 100 and \<^verbatim>\<open>setStartOffset(0)\<close> the set has
  start offset 0 and \<^verbatim>\<open>mLastEnd\<close> 110; a further child ending at 105 leaves
  \<^verbatim>\<open>mLastEnd\<close> and the duration at 110.
\<close>

lemma stale_last_end_after_offset_change:
  "mStartOffset (base (performAll
      [SetStartOffset 10, AddAnimation (sampleAnimation 0 0 100 False False),
       SetStartOffset 0, AddAnimation (sampleAnimation 0 0 105 False False)] sampleSet)) = 0 \<and>
   mDuration (base (performAll
      [SetStartOffset 10, AddAnimation (sampleAnimation 0 0 100 False False),
       SetStartOffset 0, AddAnimation (sampleAnimation 0 0 105 False False)] sampleSet)) = 110 \<and>
   mLastEnd (performAll
      [SetStartOffset 10, AddAnimation (sampleAnimation 0 0 100 False False),
       SetStartOffset 0, AddAnimation (sampleAnimation 0 0 105 False False)] sampleSet) = 110"
proof -
  let ?s0 = "setStartOffset 10 sampleSet"
  let ?s1 = "addAnimation (sampleAnimation 0 0 100 False False) ?s0"
  let ?s2 = "setStartOffset 0 ?s1"
  have n0: "\<not> durationOverridden ?s0"
    using durationOverridden_perform [of "SetStartOffset 10" sampleSet]
    by (simp add: sampleSet_def durationOverridden_new)
  have e0: "mAnimations ?s0 = []"
    by (simp add: setStartOffset_def sampleSet_def mAnimations_new)
  have o0: "mStartOffset (base ?s0) = 10"
    by (simp add: setStartOffset_def Animation_setStartOffset_def)
  have c: "childEnd (sampleAnimation 0 0 100 False False) = 100"
    "childEnd (sampleAnimation 0 0 105 False False) = 105"
    by (simp_all add: childEnd_def Animation_getStartOffset_def Animation_getDuration_def
        sampleAnimation_def)
  have l1: "mLastEnd ?s1 = 110"
    using n0 e0 o0 c by (simp add: addAnimation_when_first)
  have n1: "\<not> durationOverridden ?s1" using n0 by simp
  have n2: "\<not> durationOverridden ?s2"
    using durationOverridden_perform [of "SetStartOffset 0" ?s1] n1 by simp
  have e2: "mAnimations ?s2 \<noteq> []" by (simp add: setStartOffset_def)
  have l2: "mLastEnd ?s2 = 110" using l1 by (simp add: setStartOffset_def)
  have o2: "mStartOffset (base ?s2) = 0"
    by (simp add: setStartOffset_def Animation_setStartOffset_def)
  show ?thesis
    using l2 o2 c by (simp add: addAnimation_when_later [OF n2 e2])
qed

text \<open>
  Claim C8 says that with an explicit duration \<^verbatim>\<open>addAnimation\<close> leaves both the
  duration and the \<^verbatim>\<open>mLastEnd\<close> field as they were. After \<^verbatim>\<open>setDuration(100)\<close> and
  \<^verbatim>\<open>setStartOffset(10)\<close> the field \<^verbatim>\<open>mLastEnd\<close> is 100, and adding a child writes
  110 into it.
\<close>

theorem addAnimation_override_counterexample:
  "durationOverridden (setStartOffset 10 (setDuration 100 sampleSet)) \<and>
   mLastEnd (setStartOffset 10 (setDuration 100 sampleSet)) = 100 \<and>
   mLastEnd (addAnimation (sampleAnimation 0 0 50 False False)
      (setStartOffset 10 (setDuration 100 sampleSet))) = 110"
proof -
  let ?s = "setStartOffset 10 (setDuration 100 (sampleSet))"
  have d: "durationOverridden ?s"
    using durationOverridden_perform [of "SetStartOffset 10" "setDuration 100 sampleSet"]
    by (simp add: durationOverridden_setDuration)
  have l: "mLastEnd ?s = 100"
    by (simp add: setStartOffset_def setDuration_def Let_def Animation_setDuration_def
        sampleSet_def AnimationSet_new_def init_def setFlag_def sampleAnimation_def)
  have o: "mStartOffset (base ?s) = 10" and v: "mDuration (base ?s) = 100"
    by (simp_all add: setStartOffset_def setDuration_def Let_def Animation_setDuration_def
        Animation_setStartOffset_def)
  have "mLastEnd (addAnimation (sampleAnimation 0 0 50 False False) ?s) = 110"
    using o v by (simp add: addAnimation_when_override [OF d])
  then show ?thesis using d l by simp
qed

text \<open>
  Claim C8, amended: if the duration of the set is explicitly set, \<^verbatim>\<open>addAnimation\<close>
  leaves the duration field unchanged and stores the set's start offset plus duration
  in \<^verbatim>\<open>mLastEnd\<close>; \<^verbatim>\<open>mLastEnd\<close> keeps its value exactly when it already was that sum.
  Directly after \<^verbatim>\<open>setDuration(d)\<close> it is: \<^verbatim>\<open>addAnimation\<close> then leaves the duration
  \<open>d\<close> and \<^verbatim>\<open>mLastEnd\<close> as they were.
\<close>

theorem addAnimation_override:
  "(durationOverridden s \<longrightarrow>
      mDuration (base (addAnimation a s)) = mDuration (base s) \<and>
      mLastEnd (addAnimation a s) = mStartOffset (base s) + mDuration (base s) \<and>
      (mLastEnd (addAnimation a s) = mLastEnd s) =
        (mLastEnd s = mStartOffset (base s) + mDuration (base s))) \<and>
   mDuration (base (addAnimation a (setDuration d s))) = d \<and>
   mLastEnd (addAnimation a (setDuration d s)) = mLastEnd (setDuration d s)"
proof (intro conjI impI)
  assume d: "durationOverridden s"
  show "mDuration (base (addAnimation a s)) = mDuration (base s)"
    and "mLastEnd (addAnimation a s) = mStartOffset (base s) + mDuration (base s)"
    by (simp_all add: addAnimation_when_override [OF d])
  show "(mLastEnd (addAnimation a s) = mLastEnd s) =
        (mLastEnd s = mStartOffset (base s) + mDuration (base s))"
    by (auto simp: addAnimation_when_override [OF d])
next
  have "mDuration (base (setDuration d s)) = d"
    by (simp add: setDuration_def Let_def Animation_setDuration_def)
  then show "mDuration (base (addAnimation a (setDuration d s))) = d"
    by (simp add: addAnimation_when_override [OF durationOverridden_setDuration])
  show "mLastEnd (addAnimation a (setDuration d s)) = mLastEnd (setDuration d s)"
    using mLastEnd_setDuration [of d s]
    by (simp add: addAnimation_when_override [OF durationOverridden_setDuration])
qed

text \<open>
  The amended claim C8 on the sample set after \<^verbatim>\<open>setDuration(100)\<close>, where
  \<^verbatim>\<open>mLastEnd\<close> keeps its value, and after \<^verbatim>\<open>setDuration(100)\<close> and
  \<^verbatim>\<open>setStartOffset(10)\<close>, where it does not.
\<close>

theorem addAnimation_override_witness:
  "durationOverridden (setDuration 100 sampleSet) \<and>
   mDuration (base (addAnimation (sampleAnimation 0 0 50 False False) (setDuration 100 sampleSet))) = 100 \<and>
   mLastEnd (setDuration 100 sampleSet) = 100 \<and>
   mLastEnd (addAnimation (sampleAnimation 0 0 50 False False) (setDuration 100 sampleSet)) = 100 \<and>
   durationOverridden (setStartOffset 10 (setDuration 100 sampleSet)) \<and>
   mLastEnd (addAnimation (sampleAnimation 0 0 50 False False)
      (setStartOffset 10 (setDuration 100 sampleSet)))
     \<noteq> mLastEnd (setStartOffset 10 (setDuration 100 sampleSet))"
proof -
  let ?c = "sampleAnimation 0 0 50 False False"
  let ?s = "setDuration 100 sampleSet"
  let ?s2 = "setStartOffset 10 (setDuration 100 sampleSet)"
  have d: "durationOverridden ?s" by (rule durationOverridden_setDuration)
  have v: "mDuration (base ?s) = 100" and o: "mStartOffset (base ?s) = 0"
    and l: "mLastEnd ?s = 100"
    by (simp_all add: setDuration_def Let_def Animation_setDuration_def
        sampleSet_def AnimationSet_new_def init_def setFlag_def sampleAnimation_def)
  have d2: "durationOverridden ?s2"
    using durationOverridden_perform [of "SetStartOffset 10" ?s]
    by (simp add: durationOverridden_setDuration)
  have l2: "mLastEnd ?s2 = 100"
    by (simp add: setStartOffset_def setDuration_def Let_def Animation_setDuration_def
        sampleSet_def AnimationSet_new_def init_def setFlag_def sampleAnimation_def)
  have o2: "mStartOffset (base ?s2) = 10" and v2: "mDuration (base ?s2) = 100"
    by (simp_all add: setStartOffset_def setDuration_def Let_def Animation_setDuration_def
        Animation_setStartOffset_def)
  note t = addAnimation_override [of ?s ?c 100, THEN conjunct1, rule_format, OF d]
  note t2 = addAnimation_override [of ?s2 ?c 100, THEN conjunct1, rule_format, OF d2]
  have a1: "mDuration (base (addAnimation ?c ?s)) = 100" using t v by simp
  have a2: "mLastEnd (addAnimation ?c ?s) = 100" using t v o by simp
  have a3: "mLastEnd (addAnimation ?c ?s2) \<noteq> mLastEnd ?s2"
    using t2 [THEN conjunct2, THEN conjunct2] l2 o2 v2 by simp
  show ?thesis using d a1 l a2 d2 a3 by (intro conjI)
qed

subsection \<open>One call of \<^verbatim>\<open>getTransformation\<close> in closed form\<close>

lemma getTransformation_more:
  "fst (getTransformation clr compose childGT ct s) =
     (\<exists>a\<in>set (mAnimations s). childMore childGT clr ct (mScaleFactor (base s)) a)"
  by (simp add: getTransformation_def aggregate_char Let_def)

lemma getTransformation_t:
  "fst (snd (getTransformation clr compose childGT ct s)) =
     foldl compose clr
       (rev (map (childTransformation childGT clr ct (mScaleFactor (base s))) (mAnimations s)))"
  by (simp add: getTransformation_def aggregate_char Let_def)

lemma aggStarted_char:
  "aggStarted clr compose childGT ct s =
     (\<exists>a\<in>set (mAnimations s). mStarted (childAfter childGT clr ct (mScaleFactor (base s)) a))"
  by (simp add: aggStarted_def aggregate_char)

lemma aggEnded_char:
  "aggEnded clr compose childGT ct s =
     (\<forall>a\<in>set (mAnimations s). mEnded (childAfter childGT clr ct (mScaleFactor (base s)) a))"
  by (simp add: aggEnded_def aggregate_char)

lemma callbacksGT_char:
  "callbacksGT clr compose childGT ct s =
     (if aggStarted clr compose childGT ct s \<and> \<not> mStarted (base s)
      then notify onAnimationStart (mListener (base s)) else []) @
     (if aggEnded clr compose childGT ct s \<noteq> mEnded (base s)
      then notify onAnimationEnd (mListener (base s)) else [])"
  by (cases "aggregate clr compose childGT ct s")
    (auto simp: callbacksGT_def getTransformation_def aggStarted_def aggEnded_def Let_def)

lemma afterGT_mStarted:
  "mStarted (base (afterGT clr compose childGT ct s)) =
     (mStarted (base s) \<or> aggStarted clr compose childGT ct s)"
  by (cases "aggregate clr compose childGT ct s")
    (auto simp: afterGT_def getTransformation_def aggStarted_def Let_def)

lemma afterGT_mEnded:
  "mEnded (base (afterGT clr compose childGT ct s)) = aggEnded clr compose childGT ct s"
  by (cases "aggregate clr compose childGT ct s")
    (auto simp: afterGT_def getTransformation_def aggEnded_def Let_def)

lemma afterGT_mListener:
  "mListener (base (afterGT clr compose childGT ct s)) = mListener (base s)"
  by (cases "aggregate clr compose childGT ct s")
    (auto simp: afterGT_def getTransformation_def Let_def)

lemma afterGT_mAnimations:
  "mAnimations (afterGT clr compose childGT ct s) =
     map (childAfter childGT clr ct (mScaleFactor (base s))) (mAnimations s)"
  by (auto simp: afterGT_def getTransformation_def aggregate_char Let_def)


subsection \<open>The sample child evaluated\<close>

lemma sampleChildGT_parts:
  "childMore sampleChildGT [] ct sc a = (\<not> mStartTime a + mStartOffset a + mDuration a \<le> ct)"
  "childTransformation sampleChildGT [] ct sc a =
     (if mStartTime a + mStartOffset a \<le> ct then [mStartOffset a] else [])"
  "mStarted (childAfter sampleChildGT [] ct sc a) = (mStartTime a + mStartOffset a \<le> ct)"
  "mEnded (childAfter sampleChildGT [] ct sc a) = (mStartTime a + mStartOffset a + mDuration a \<le> ct)"
  by (simp_all add: childMore_def childTransformation_def childAfter_def sampleChildGT_def Let_def)

lemma sampleAnimation_sel [simp]:
  "mStartTime (sampleAnimation st so d b e) = st"
  "mStartOffset (sampleAnimation st so d b e) = so"
  "mDuration (sampleAnimation st so d b e) = d"
  "mStarted (sampleAnimation st so d b e) = b"
  "mEnded (sampleAnimation st so d b e) = e"
  "mListener (sampleAnimation st so d b e) = None"
  by (simp_all add: sampleAnimation_def)

lemma mAnimations_sampleSet [simp]: "mAnimations sampleSet = []"
  by (simp add: sampleSet_def mAnimations_new)

subsection \<open>Composition order\<close>

text \<open>
  Claim C2: for every timestamp and every list of children, \<^verbatim>\<open>getTransformation\<close>
  visits the children from the last added to the first added and composes each child's
  transformation into \<^verbatim>\<open>t\<close>; the transformation it leaves in \<^verbatim>\<open>t\<close> is the fold of
  \<^verbatim>\<open>compose\<close>, started from the cleared transformation, over the children's individual
  transformations taken in reverse insertion order.
\<close>

theorem getTransformation_composes_in_reverse:
  "fst (snd (getTransformation clr compose childGT currentTime s)) =
     foldl compose clr
       (rev (map (childTransformation childGT clr currentTime (mScaleFactor (base s)))
               (mAnimations s)))"
  by (rule getTransformation_t)

text \<open>
  Claim C2 at two sample children whose transformations do not commute: the child added
  last comes first in the result, and swapping the two children swaps the result.
\<close>

theorem getTransformation_composes_in_reverse_witness:
  "fst (snd (getTransformation [] (@) sampleChildGT 50
      (addAnimation (sampleAnimation 0 2 100 False False)
        (addAnimation (sampleAnimation 0 1 100 False False) sampleSet)))) = [2, 1] \<and>
   fst (snd (getTransformation [] (@) sampleChildGT 50
      (addAnimation (sampleAnimation 0 1 100 False False)
        (addAnimation (sampleAnimation 0 2 100 False False) sampleSet)))) = [1, 2]"
  using getTransformation_composes_in_reverse [of "[]" "(@)" sampleChildGT 50
      "addAnimation (sampleAnimation 0 2 100 False False)
        (addAnimation (sampleAnimation 0 1 100 False False) sampleSet)"]
    getTransformation_composes_in_reverse [of "[]" "(@)" sampleChildGT 50
      "addAnimation (sampleAnimation 0 1 100 False False)
        (addAnimation (sampleAnimation 0 2 100 False False) sampleSet)"]
  by (simp add: sampleChildGT_parts)

subsection \<open>Aggregated flags\<close>

text \<open>
  Claim C4: the value \<^verbatim>\<open>getTransformation\<close> returns is true exactly when at least one
  child's \<^verbatim>\<open>getTransformation\<close> answers true at that timestamp; the computed value
  \<^verbatim>\<open>ended\<close>, which the call also stores in \<^verbatim>\<open>mEnded\<close>, is true exactly when every
  child reports \<^verbatim>\<open>hasEnded()\<close> after its call (so it is true for a set without
  children); and both values are the same for every set that holds the same children in
  another order.
\<close>

theorem getTransformation_more_and_ended:
  "fst (getTransformation clr compose childGT currentTime s) =
     (\<exists>a\<in>set (mAnimations s).
        childMore childGT clr currentTime (mScaleFactor (base s)) a) \<and>
   aggEnded clr compose childGT currentTime s =
     (\<forall>a\<in>set (mAnimations s).
        Animation_hasEnded (childAfter childGT clr currentTime (mScaleFactor (base s)) a)) \<and>
   mEnded (base (afterGT clr compose childGT currentTime s)) =
     aggEnded clr compose childGT currentTime s \<and>
   (mset (mAnimations s') = mset (mAnimations s) \<and>
    mScaleFactor (base s') = mScaleFactor (base s) \<longrightarrow>
      fst (getTransformation clr compose childGT currentTime s') =
        fst (getTransformation clr compose childGT currentTime s) \<and>
      aggEnded clr compose childGT currentTime s' = aggEnded clr compose childGT currentTime s)"
proof (intro conjI impI)
  show "fst (getTransformation clr compose childGT currentTime s) =
     (\<exists>a\<in>set (mAnimations s). childMore childGT clr currentTime (mScaleFactor (base s)) a)"
    by (rule getTransformation_more)
  show "aggEnded clr compose childGT currentTime s =
     (\<forall>a\<in>set (mAnimations s).
        Animation_hasEnded (childAfter childGT clr currentTime (mScaleFactor (base s)) a))"
    by (simp add: aggEnded_char Animation_hasEnded_def)
  show "mEnded (base (afterGT clr compose childGT currentTime s)) =
     aggEnded clr compose childGT currentTime s"
    by (rule afterGT_mEnded)
next
  assume p: "mset (mAnimations s') = mset (mAnimations s) \<and>
    mScaleFactor (base s') = mScaleFactor (base s)"
  then have "set (mAnimations s') = set (mAnimations s)" by (metis mset_eq_setD)
  with p show "fst (getTransformation clr compose childGT currentTime s') =
        fst (getTransformation clr compose childGT currentTime s)"
    and "aggEnded clr compose childGT currentTime s' = aggEnded clr compose childGT currentTime s"
    by (simp_all add: getTransformation_more aggEnded_char)
qed

text \<open>
  Claim C4 at two sample children, one expired at timestamp 50 and one still running, in
  both orders, and at timestamp 200, where both have expired.
\<close>

theorem getTransformation_more_and_ended_witness:
  "fst (getTransformation [] (@) sampleChildGT 50
      (addAnimation (sampleAnimation 0 0 100 False False)
        (addAnimation (sampleAnimation 0 0 30 False False) sampleSet))) \<and>
   \<not> mEnded (base (afterGT [] (@) sampleChildGT 50
      (addAnimation (sampleAnimation 0 0 100 False False)
        (addAnimation (sampleAnimation 0 0 30 False False) sampleSet)))) \<and>
   fst (getTransformation [] (@) sampleChildGT 50
      (addAnimation (sampleAnimation 0 0 30 False False)
        (addAnimation (sampleAnimation 0 0 100 False False) sampleSet))) \<and>
   \<not> aggEnded [] (@) sampleChildGT 50
      (addAnimation (sampleAnimation 0 0 30 False False)
        (addAnimation (sampleAnimation 0 0 100 False False) sampleSet)) \<and>
   \<not> fst (getTransformation [] (@) sampleChildGT 200
      (addAnimation (sampleAnimation 0 0 100 False False)
        (addAnimation (sampleAnimation 0 0 30 False False) sampleSet))) \<and>
   mEnded (base (afterGT [] (@) sampleChildGT 200
      (addAnimation (sampleAnimation 0 0 100 False False)
        (addAnimation (sampleAnimation 0 0 30 False False) sampleSet))))"
proof -
  let ?s = "addAnimation (sampleAnimation 0 0 100 False False)
        (addAnimation (sampleAnimation 0 0 30 False False) sampleSet)"
  let ?s' = "addAnimation (sampleAnimation 0 0 30 False False)
        (addAnimation (sampleAnimation 0 0 100 False False) sampleSet)"
  have perm: "mset (mAnimations ?s') = mset (mAnimations ?s) \<and>
      mScaleFactor (base ?s') = mScaleFactor (base ?s)"
    by simp
  show ?thesis
    using getTransformation_more_and_ended [of "[]" "(@)" sampleChildGT 50 ?s ?s'] perm
      getTransformation_more_and_ended [of "[]" "(@)" sampleChildGT 200 ?s ?s']
    by (simp add: sampleChildGT_parts Animation_hasEnded_def)
qed

subsection \<open>A set without children\<close>

text \<open>
  Claim C10: on a set without children \<^verbatim>\<open>getTransformation\<close> returns false at every
  timestamp and leaves the cleared transformation in \<^verbatim>\<open>t\<close>; the computed \<^verbatim>\<open>ended\<close>
  is true, so when the cached \<^verbatim>\<open>mEnded\<close> is false and a listener is registered the call
  makes the \<^verbatim>\<open>onAnimationEnd\<close> callback, although no child ever ran, and sets
  \<^verbatim>\<open>mEnded\<close>.
\<close>

theorem getTransformation_no_children:
  "mAnimations s = [] \<Longrightarrow>
   \<not> fst (getTransformation clr compose childGT currentTime s) \<and>
   fst (snd (getTransformation clr compose childGT currentTime s)) = clr \<and>
   aggEnded clr compose childGT currentTime s \<and>
   (\<not> mEnded (base s) \<and> mListener (base s) = Some l \<longrightarrow>
      callbacksGT clr compose childGT currentTime s = [onAnimationEnd l]) \<and>
   callbacksGT clr compose childGT currentTime s =
     (if mEnded (base s) then [] else notify onAnimationEnd (mListener (base s))) \<and>
   mEnded (base (afterGT clr compose childGT currentTime s))"
  by (simp add: getTransformation_more getTransformation_t aggEnded_char aggStarted_char
      callbacksGT_char afterGT_mEnded notify_def)

text \<open>
  Claim C10 on the sample set without children, with listener 7 registered.
\<close>

theorem getTransformation_no_children_witness:
  "\<not> fst (getTransformation [] (@) sampleChildGT 5
       (sampleSet\<lparr>base := (base sampleSet)\<lparr>mListener := Some 7\<rparr>\<rparr>)) \<and>
   fst (snd (getTransformation [] (@) sampleChildGT 5
       (sampleSet\<lparr>base := (base sampleSet)\<lparr>mListener := Some 7\<rparr>\<rparr>))) = [] \<and>
   callbacksGT [] (@) sampleChildGT 5
       (sampleSet\<lparr>base := (base sampleSet)\<lparr>mListener := Some 7\<rparr>\<rparr>) = [onAnimationEnd 7] \<and>
   mEnded (base (afterGT [] (@) sampleChildGT 5
       (sampleSet\<lparr>base := (base sampleSet)\<lparr>mListener := Some 7\<rparr>\<rparr>)))"
proof -
  let ?s = "sampleSet\<lparr>base := (base sampleSet)\<lparr>mListener := Some 7\<rparr>\<rparr>"
  have e: "mAnimations ?s = []" by simp
  have n: "\<not> mEnded (base ?s) \<and> mListener (base ?s) = Some 7"
    by (simp add: sampleSet_def AnimationSet_new_def init_def setFlag_def)
  show ?thesis
    using getTransformation_no_children [OF e, of "[]" "(@)" sampleChildGT 5 7] n
    by simp
qed

subsection \<open>Fan-out of \<^verbatim>\<open>setStartTime\<close> and \<^verbatim>\<open>reset\<close>\<close>

lemma setStartTime_mAnimations:
  "mAnimations (setStartTime f t s) = map (f t) (mAnimations s)"
  by (simp add: setStartTime_def Let_def setStartTime_loop_map)

text \<open>
  Claim C7 says that \<^verbatim>\<open>setStartTime\<close> and \<^verbatim>\<open>reset\<close> each reach every child. For
  \<^verbatim>\<open>reset\<close> the code does not: it resets the set's own base object and calls
  \<^verbatim>\<open>restoreChildrenStartOffset\<close>, whose body is empty. With a base reset that clears
  the started and ended flags, a child that has started and ended is still so after
  \<^verbatim>\<open>reset()\<close> on the set, whereas a reset child would have both flags cleared.
\<close>

theorem setStartTime_reset_counterexample:
  "mAnimations (reset sampleReset (addAnimation (sampleAnimation 0 0 100 True True) sampleSet))
     = [sampleAnimation 0 0 100 True True] \<and>
   map sampleReset (mAnimations (addAnimation (sampleAnimation 0 0 100 True True) sampleSet))
     = [sampleAnimation 0 0 100 False False] \<and>
   mAnimations (reset sampleReset (addAnimation (sampleAnimation 0 0 100 True True) sampleSet))
     \<noteq> map sampleReset (mAnimations (addAnimation (sampleAnimation 0 0 100 True True) sampleSet))"
  by (simp add: reset_def restoreChildrenStartOffset_def sampleReset_def sampleAnimation_def)

text \<open>
  Claim C7, amended: \<^verbatim>\<open>setStartTime(t)\<close> propagates unconditionally to every child:
  it applies the base class's \<^verbatim>\<open>setStartTime(t)\<close> to the set itself and to each child,
  so afterwards every child's start time equals \<open>t\<close> (the base operation storing the
  start time). \<^verbatim>\<open>reset()\<close> resets the set's own base object only and leaves the list
  of children as it was.
\<close>

theorem setStartTime_fans_out:
  "mAnimations (setStartTime baseSetStartTime t s) = map (baseSetStartTime t) (mAnimations s) \<and>
   base (setStartTime baseSetStartTime t s) = baseSetStartTime t (base s) \<and>
   ((\<forall>a. Animation_getStartTime (baseSetStartTime t a) = t) \<longrightarrow>
      (\<forall>c\<in>set (mAnimations (setStartTime baseSetStartTime t s)). Animation_getStartTime c = t)) \<and>
   mAnimations (reset baseReset s) = mAnimations s \<and>
   base (reset baseReset s) = baseReset (base s)"
proof (intro conjI impI)
  show m: "mAnimations (setStartTime baseSetStartTime t s) = map (baseSetStartTime t) (mAnimations s)"
    by (rule setStartTime_mAnimations)
  show "base (setStartTime baseSetStartTime t s) = baseSetStartTime t (base s)"
    by (simp add: setStartTime_def Let_def)
  show "mAnimations (reset baseReset s) = mAnimations s"
    and "base (reset baseReset s) = baseReset (base s)"
    by (simp_all add: reset_def restoreChildrenStartOffset_def)
  assume "\<forall>a. Animation_getStartTime (baseSetStartTime t a) = t"
  then show "\<forall>c\<in>set (mAnimations (setStartTime baseSetStartTime t s)). Animation_getStartTime c = t"
    by (auto simp: m)
qed

text \<open>
  The amended claim C7 on a set with two sample children with start times 3 and 7.
\<close>

theorem setStartTime_fans_out_witness:
  "map Animation_getStartTime (mAnimations (setStartTime sampleSetStartTime 500
      (addAnimation (sampleAnimation 7 0 100 True True)
        (addAnimation (sampleAnimation 3 0 30 True False) sampleSet)))) = [500, 500] \<and>
   mAnimations (reset sampleReset
      (addAnimation (sampleAnimation 7 0 100 True True)
        (addAnimation (sampleAnimation 3 0 30 True False) sampleSet)))
     = [sampleAnimation 3 0 30 True False, sampleAnimation 7 0 100 True True]"
proof -
  let ?s = "addAnimation (sampleAnimation 7 0 100 True True)
        (addAnimation (sampleAnimation 3 0 30 True False) sampleSet)"
  have h: "\<forall>a. Animation_getStartTime (sampleSetStartTime 500 a) = 500"
    by (simp add: Animation_getStartTime_def sampleSetStartTime_def)
  note t = setStartTime_fans_out [of sampleSetStartTime 500 ?s sampleReset]
  have a: "mAnimations (setStartTime sampleSetStartTime 500 ?s) =
      map (sampleSetStartTime 500) (mAnimations ?s)"
    using t by (rule conjunct1)
  have b: "\<forall>c\<in>set (mAnimations (setStartTime sampleSetStartTime 500 ?s)).
      Animation_getStartTime c = 500"
    using t h by blast
  have r: "mAnimations (reset sampleReset ?s) = mAnimations ?s"
    using t by blast
  have "map Animation_getStartTime (mAnimations (setStartTime sampleSetStartTime 500 ?s)) =
      map (\<lambda>c. 500) (mAnimations (setStartTime sampleSetStartTime 500 ?s))"
    using b by (intro map_cong) auto
  also have "\<dots> = [500, 500]" by (simp add: a)
  finally have c: "map Animation_getStartTime
      (mAnimations (setStartTime sampleSetStartTime 500 ?s)) = [500, 500]" .
  have d: "mAnimations (reset sampleReset ?s) =
      [sampleAnimation 3 0 30 True False, sampleAnimation 7 0 100 True True]"
    by (simp add: r)
  show ?thesis using c d by (rule conjI)
qed

subsection \<open>Listener callbacks over a sequence of calls\<close>

lemma length_preStates [simp]: "length (preStates clr compose childGT s cts) = length cts"
  by (induction cts arbitrary: s) simp_all

lemma length_callbacksOf [simp]: "length (callbacksOf clr compose childGT s cts) = length cts"
  by (induction cts arbitrary: s) simp_all

lemma callbacksOf_nth:
  "k < length cts \<Longrightarrow>
   callbacksOf clr compose childGT s cts ! k =
     callbacksGT clr compose childGT (cts ! k) (preStates clr compose childGT s cts ! k)"
proof (induction cts arbitrary: s k)
  case Nil
  then show ?case by simp
next
  case (Cons ct cts)
  then show ?case by (cases k) simp_all
qed

lemma preStates_mListener:
  "k < length cts \<Longrightarrow>
   mListener (base (preStates clr compose childGT s cts ! k)) = mListener (base s)"
proof (induction cts arbitrary: s k)
  case Nil
  then show ?case by simp
next
  case (Cons ct cts)
  then show ?case by (cases k) (simp_all add: afterGT_mListener)
qed

lemma ex_less_Suc_shift: "(\<exists>j<Suc k. P j) = (P 0 \<or> (\<exists>j<k. P (Suc j)))"
  by (metis less_Suc_eq_0_disj)

lemma preStates_mStarted:
  "k < length cts \<Longrightarrow>
   mStarted (base (preStates clr compose childGT s cts ! k)) =
     (mStarted (base s) \<or>
      (\<exists>j<k. aggStarted clr compose childGT (cts ! j) (preStates clr compose childGT s cts ! j)))"
proof (induction cts arbitrary: s k)
  case Nil
  then show ?case by simp
next
  case (Cons ct cts)
  show ?case
  proof (cases k)
    case 0
    then show ?thesis by simp
  next
    case (Suc k')
    then have "k' < length cts" using Cons.prems by simp
    from Cons.IH [OF this, of "afterGT clr compose childGT ct s"]
    show ?thesis
      unfolding Suc ex_less_Suc_shift
      by (simp add: afterGT_mStarted disj_assoc)
  qed
qed

lemma count_start_callbacksGT:
  "mListener (base s) = Some l \<Longrightarrow>
   count_list (callbacksGT clr compose childGT ct s) (onAnimationStart l) =
     (if aggStarted clr compose childGT ct s \<and> \<not> mStarted (base s) then 1 else 0)"
  by (simp add: callbacksGT_char notify_def)

lemma count_list_concat_Cons:
  "count_list (concat (x # xs)) a = count_list x a + count_list (concat xs) a"
  by simp

lemma no_start_after_started:
  "mStarted (base s) \<Longrightarrow> mListener (base s) = Some l \<Longrightarrow>
   count_list (concat (callbacksOf clr compose childGT s cts)) (onAnimationStart l) = 0"
proof (induction cts arbitrary: s)
  case Nil
  then show ?case by simp
next
  case (Cons ct cts)
  have "mStarted (base (afterGT clr compose childGT ct s))"
    using Cons.prems(1) by (simp add: afterGT_mStarted)
  moreover have "mListener (base (afterGT clr compose childGT ct s)) = Some l"
    using Cons.prems(2) by (simp add: afterGT_mListener)
  ultimately have "count_list (concat (callbacksOf clr compose childGT
      (afterGT clr compose childGT ct s) cts)) (onAnimationStart l) = 0"
    by (rule Cons.IH)
  then show ?case using Cons.prems by (simp add: count_start_callbacksGT)
qed

lemma start_fires_once:
  "\<not> mStarted (base s) \<Longrightarrow> mListener (base s) = Some l \<Longrightarrow>
   count_list (concat (callbacksOf clr compose childGT s cts)) (onAnimationStart l) =
     (if \<exists>k<length cts. aggStarted clr compose childGT (cts ! k)
            (preStates clr compose childGT s cts ! k) then 1 else 0)"
proof (induction cts arbitrary: s)
  case Nil
  then show ?case by simp
next
  case (Cons ct cts)
  let ?s' = "afterGT clr compose childGT ct s"
  have l': "mListener (base ?s') = Some l" using Cons.prems(2) by (simp add: afterGT_mListener)
  show ?case
  proof (cases "aggStarted clr compose childGT ct s")
    case True
    then have "mStarted (base ?s')" by (simp add: afterGT_mStarted)
    then have "count_list (concat (callbacksOf clr compose childGT ?s' cts)) (onAnimationStart l) = 0"
      using l' by (rule no_start_after_started)
    moreover have "\<exists>k<length (ct # cts). aggStarted clr compose childGT ((ct # cts) ! k)
            (preStates clr compose childGT s (ct # cts) ! k)"
      using True by (intro exI [of _ 0]) simp
    ultimately show ?thesis using True Cons.prems by (simp add: count_start_callbacksGT)
  next
    case False
    then have "\<not> mStarted (base ?s')" using Cons.prems(1) by (simp add: afterGT_mStarted)
    from Cons.IH [OF this l']
    have ih: "count_list (concat (callbacksOf clr compose childGT ?s' cts)) (onAnimationStart l) =
     (if \<exists>k<length cts. aggStarted clr compose childGT (cts ! k)
            (preStates clr compose childGT ?s' cts ! k) then 1 else 0)" .
    have "(\<exists>k<length (ct # cts). aggStarted clr compose childGT ((ct # cts) ! k)
            (preStates clr compose childGT s (ct # cts) ! k)) =
          (\<exists>k<length cts. aggStarted clr compose childGT (cts ! k)
            (preStates clr compose childGT ?s' cts ! k))"
      using False by (simp add: ex_less_Suc_shift)
    then show ?thesis using False Cons.prems ih by (simp add: count_start_callbacksGT)
  qed
qed


lemma preStates_Suc:
  "Suc k < length cts \<Longrightarrow>
   preStates clr compose childGT s cts ! Suc k =
     afterGT clr compose childGT (cts ! k) (preStates clr compose childGT s cts ! k)"
proof (induction cts arbitrary: s k)
  case Nil
  then show ?case by simp
next
  case (Cons ct cts)
  show ?case
  proof (cases k)
    case 0
    then show ?thesis using Cons.prems by (cases cts) simp_all
  next
    case (Suc k')
    then have "Suc k' < length cts" using Cons.prems by simp
    from Cons.IH [OF this, of "afterGT clr compose childGT ct s"]
    show ?thesis unfolding Suc by simp
  qed
qed

lemma sampleChildGT_fields [simp]:
  "mStartTime (childAfter sampleChildGT [] ct sc a) = mStartTime a"
  "mStartOffset (childAfter sampleChildGT [] ct sc a) = mStartOffset a"
  "mDuration (childAfter sampleChildGT [] ct sc a) = mDuration a"
  by (simp_all add: childAfter_def sampleChildGT_def Let_def)

text \<open>
  Claim C5: over any sequence of \<^verbatim>\<open>getTransformation\<close> calls on a set with a listener
  registered and nothing in between, \<^verbatim>\<open>onAnimationStart\<close> is called once in all if
  the cached started flag is false at the beginning and some call aggregates
  \<^verbatim>\<open>started\<close> to true, and not at all otherwise; the call that makes it is the first
  one that aggregates \<^verbatim>\<open>started\<close> to true while the cached flag is false.
  \<^verbatim>\<open>onAnimationEnd\<close> is called once in every call whose aggregated \<^verbatim>\<open>ended\<close>
  differs from the cached ended flag, in either direction, and in no other call; after
  each call the cached ended flag is the aggregated value, which the next call finds.
\<close>

theorem listener_callbacks:
  assumes "mListener (base s) = Some l"
  shows
  "count_list (concat (callbacksOf clr compose childGT s cts)) (onAnimationStart l) =
     (if \<not> mStarted (base s) \<and>
         (\<exists>k<length cts. aggStarted clr compose childGT (cts ! k)
             (preStates clr compose childGT s cts ! k))
      then 1 else 0) \<and>
   (\<forall>k<length cts.
      (onAnimationStart l \<in> set (callbacksOf clr compose childGT s cts ! k)) =
        (aggStarted clr compose childGT (cts ! k) (preStates clr compose childGT s cts ! k) \<and>
         \<not> mStarted (base (preStates clr compose childGT s cts ! k))) \<and>
      (\<not> mStarted (base (preStates clr compose childGT s cts ! k))) =
        (\<not> mStarted (base s) \<and>
         (\<forall>j<k. \<not> aggStarted clr compose childGT (cts ! j)
             (preStates clr compose childGT s cts ! j))) \<and>
      count_list (callbacksOf clr compose childGT s cts ! k) (onAnimationEnd l) =
        (if aggEnded clr compose childGT (cts ! k) (preStates clr compose childGT s cts ! k)
            \<noteq> mEnded (base (preStates clr compose childGT s cts ! k))
         then 1 else 0) \<and>
      mEnded (base (afterGT clr compose childGT (cts ! k)
          (preStates clr compose childGT s cts ! k))) =
        aggEnded clr compose childGT (cts ! k) (preStates clr compose childGT s cts ! k) \<and>
      (Suc k < length cts \<longrightarrow>
         mEnded (base (preStates clr compose childGT s cts ! Suc k)) =
           aggEnded clr compose childGT (cts ! k) (preStates clr compose childGT s cts ! k)))"
proof (intro conjI allI impI)
  show "count_list (concat (callbacksOf clr compose childGT s cts)) (onAnimationStart l) =
     (if \<not> mStarted (base s) \<and>
         (\<exists>k<length cts. aggStarted clr compose childGT (cts ! k)
             (preStates clr compose childGT s cts ! k))
      then 1 else 0)"
  proof (cases "mStarted (base s)")
    case True
    then show ?thesis using assms by (simp add: no_start_after_started)
  next
    case False
    then show ?thesis using assms by (simp add: start_fires_once)
  qed
next
  fix k assume k: "k < length cts"
  let ?p = "preStates clr compose childGT s cts ! k"
  have lp: "mListener (base ?p) = Some l"
    using k assms by (simp add: preStates_mListener)
  show "(onAnimationStart l \<in> set (callbacksOf clr compose childGT s cts ! k)) =
        (aggStarted clr compose childGT (cts ! k) ?p \<and> \<not> mStarted (base ?p))"
    using k lp by (simp add: callbacksOf_nth callbacksGT_char notify_def)
  show "(\<not> mStarted (base ?p)) =
        (\<not> mStarted (base s) \<and>
         (\<forall>j<k. \<not> aggStarted clr compose childGT (cts ! j)
             (preStates clr compose childGT s cts ! j)))"
    using k by (simp add: preStates_mStarted)
  show "count_list (callbacksOf clr compose childGT s cts ! k) (onAnimationEnd l) =
        (if aggEnded clr compose childGT (cts ! k) ?p \<noteq> mEnded (base ?p) then 1 else 0)"
    using k lp by (simp add: callbacksOf_nth callbacksGT_char notify_def)
  show "mEnded (base (afterGT clr compose childGT (cts ! k) ?p)) =
        aggEnded clr compose childGT (cts ! k) ?p"
    by (rule afterGT_mEnded)
  assume "Suc k < length cts"
  then show "mEnded (base (preStates clr compose childGT s cts ! Suc k)) =
           aggEnded clr compose childGT (cts ! k) ?p"
    by (simp add: preStates_Suc afterGT_mEnded)
qed


lemma sampleListenedSet_fields:
  "mListener (base sampleListenedSet) = Some 7"
  "\<not> mStarted (base sampleListenedSet)"
  "\<not> mEnded (base sampleListenedSet)"
  "mAnimations sampleListenedSet =
     [sampleAnimation 0 0 30 False False, sampleAnimation 0 10 100 False False]"
  by (simp_all add: sampleListenedSet_def addAnimation_def Let_def sampleSet_def
      AnimationSet_new_def init_def setFlag_def)

lemma sample_callbacks:
  "callbacksOf [] (@) sampleChildGT sampleListenedSet [-5, 5, 50, 200, 20] =
     [[], [onAnimationStart 7], [], [onAnimationEnd 7], [onAnimationEnd 7]]"
  by (simp add: callbacksGT_char aggStarted_char aggEnded_char afterGT_mAnimations
      afterGT_mStarted afterGT_mEnded afterGT_mListener sampleChildGT_parts notify_def
      sampleListenedSet_fields)

text \<open>
  Claim C5 on the sample set at the timestamps -5, 5, 50, 200 and 20: the start callback
  at the second call only, the end callback at the fourth call (all children ended) and
  again at the fifth (no longer ended).
\<close>

theorem listener_callbacks_witness:
  "callbacksOf [] (@) sampleChildGT sampleListenedSet [-5, 5, 50, 200, 20] =
     [[], [onAnimationStart 7], [], [onAnimationEnd 7], [onAnimationEnd 7]] \<and>
   count_list (concat (callbacksOf [] (@) sampleChildGT sampleListenedSet [-5, 5, 50, 200, 20]))
     (onAnimationStart 7) = 1 \<and>
   count_list (callbacksOf [] (@) sampleChildGT sampleListenedSet [-5, 5, 50, 200, 20] ! 3)
     (onAnimationEnd 7) = 1 \<and>
   count_list (callbacksOf [] (@) sampleChildGT sampleListenedSet [-5, 5, 50, 200, 20] ! 4)
     (onAnimationEnd 7) = 1"
proof -
  let ?cts = "[-5, 5, 50, 200, 20] :: long list"
  let ?pre = "preStates [] (@) sampleChildGT sampleListenedSet ?cts"
  note t = listener_callbacks [OF sampleListenedSet_fields(1), of "[]" "(@)" sampleChildGT ?cts]
  have ev: "callbacksOf [] (@) sampleChildGT sampleListenedSet ?cts =
     [[], [onAnimationStart 7], [], [onAnimationEnd 7], [onAnimationEnd 7]]"
    by (rule sample_callbacks)
  have st: "aggStarted [] (@) sampleChildGT (?cts ! 1) (?pre ! 1)"
    by (simp add: aggStarted_char afterGT_mAnimations sampleChildGT_parts sampleListenedSet_fields)
  have cond: "\<not> mStarted (base sampleListenedSet) \<and>
      (\<exists>k<length ?cts. aggStarted [] (@) sampleChildGT (?cts ! k) (?pre ! k))"
    using st sampleListenedSet_fields(2) by (intro conjI exI [of _ 1]) simp_all
  have once: "count_list (concat (callbacksOf [] (@) sampleChildGT sampleListenedSet ?cts))
      (onAnimationStart 7) = 1"
    using t [THEN conjunct1] cond by simp
  have k3: "(3::nat) < length ?cts" and k4: "(4::nat) < length ?cts" by simp_all
  have a3: "aggEnded [] (@) sampleChildGT (?cts ! 3) (?pre ! 3)"
    and m3: "\<not> mEnded (base (?pre ! 3))"
    and a4: "\<not> aggEnded [] (@) sampleChildGT (?cts ! 4) (?pre ! 4)"
    and m4: "mEnded (base (?pre ! 4))"
    by (simp_all add: afterGT_mEnded aggEnded_char afterGT_mAnimations sampleChildGT_parts
        sampleListenedSet_fields)
  note c3 = t [THEN conjunct2, rule_format, OF k3, THEN conjunct2, THEN conjunct2, THEN conjunct1]
  note c4 = t [THEN conjunct2, rule_format, OF k4, THEN conjunct2, THEN conjunct2, THEN conjunct1]
  from a3 m3 have "aggEnded [] (@) sampleChildGT (?cts ! 3) (?pre ! 3) \<noteq> mEnded (base (?pre ! 3))"
    by blast
  with c3 have e3: "count_list (callbacksOf [] (@) sampleChildGT sampleListenedSet ?cts ! 3)
      (onAnimationEnd 7) = 1"
    by (simp only: simp_thms if_True)
  from a4 m4 have "aggEnded [] (@) sampleChildGT (?cts ! 4) (?pre ! 4) \<noteq> mEnded (base (?pre ! 4))"
    by blast
  with c4 have e4: "count_list (callbacksOf [] (@) sampleChildGT sampleListenedSet ?cts ! 4)
      (onAnimationEnd 7) = 1"
    by (simp only: simp_thms if_True)
  show ?thesis using ev once e3 e4 by (intro conjI)
qed

end
